theory Spec2Isabelle
  imports Complex_Main
begin

section \<open>Catalog\<close>

text \<open>
  The application is a single React component (\<^verbatim>\<open>App\<close>) over a \<^verbatim>\<open>localStorage\<close>
  back end. JavaScript numbers are modelled exactly: prices and totals as \<open>rat\<close>,
  quantities and epoch-millisecond timestamps as \<open>int\<close>. Every catalog price is a
  multiple of one half, which a double holds exactly, so the sums the cart computes
  carry no rounding error. The strings the program writes itself (ids, skus, names,
  queue numbers) are byte lists, the two non-ASCII characters of the catalog names
  written as their UTF-8 bytes. The free text of the form (pickup name, note, phone) is
  a JavaScript string as it is: a list of UTF-16 code units.
\<close>

type_synonym jsstring = "nat list"

record flavor =
  f_id :: string
  f_name :: string
  priceDelta :: "rat option"
  popular :: "bool option"

record drink =
  d_id :: string
  d_name :: string
  d_price :: rat

definition PRODUCT_id :: string where
  "PRODUCT_id = ''souffle''"

definition PRODUCT_name :: string where
  "PRODUCT_name = ''Souffl'' @ [CHR 0xC3, CHR 0xA9]"

definition PRODUCT_basePrice :: rat where
  "PRODUCT_basePrice = 12"

definition mk_flavor :: "string \<Rightarrow> string \<Rightarrow> rat option \<Rightarrow> bool option \<Rightarrow> flavor" where
  "mk_flavor i n d p = \<lparr>f_id = i, f_name = n, priceDelta = d, popular = p\<rparr>"

definition FLAVORS :: "flavor list" where
  "FLAVORS =
    [mk_flavor ''van'' ''Vanilla'' None None,
     mk_flavor ''cho'' ''Chocolate'' None (Some True),
     mk_flavor ''mat'' ''Matcha'' (Some (3 / 2)) (Some True),
     mk_flavor ''str'' ''Strawberry'' None None,
     mk_flavor ''mng'' ''Mango'' None None,
     mk_flavor ''egl'' ''Earl Grey'' None None,
     mk_flavor ''hoj'' ''Hojicha'' (Some (3 / 2)) None,
     mk_flavor ''blu'' ''Blueberry'' None None,
     mk_flavor ''bis'' ''Biscoff'' (Some 2) None]"

definition DRINKS :: "drink list" where
  "DRINKS = [\<lparr>d_id = ''drink-hojicha'', d_name = ''Hojicha (Drink)'', d_price = 3\<rparr>]"

definition CHEESE_id :: string where
  "CHEESE_id = ''addon-cheese''"

definition CHEESE_name :: string where
  "CHEESE_name = ''Cheese Topping''"

definition CHEESE_price :: rat where
  "CHEESE_price = 2"

text \<open>\<^verbatim>\<open>f.priceDelta || 0\<close>: a missing delta counts as 0.\<close>

definition priceFor :: "flavor \<Rightarrow> rat" where
  "priceFor f = PRODUCT_basePrice + (case priceDelta f of None \<Rightarrow> 0 | Some d \<Rightarrow> d)"

definition PAYMENT_WINDOW_MIN :: int where
  "PAYMENT_WINDOW_MIN = 10"

section \<open>Data model\<close>

record addon =
  a_id :: string
  a_name :: string
  price :: rat
  a_qty :: int

text \<open>\<^verbatim>\<open>addons?: Addon[]\<close> is optional on both item types: \<open>None\<close> is \<^verbatim>\<open>undefined\<close>.\<close>

record cart_item =
  sku :: string
  flavorId :: string
  name :: string
  unitPrice :: rat
  qty :: int
  addons :: "addon list option"

record order_item =
  oi_sku :: string
  oi_name :: string
  oi_unitPrice :: rat
  oi_qty :: int
  oi_addons :: "addon list option"

datatype status = New | Paid | Preparing | Ready | Done | Cancelled

record order =
  o_id :: string
  items :: "order_item list"
  total :: rat
  status :: status
  createdAt :: int
  expiresAt :: "int option"
  o_note :: "jsstring option"
  pickupName :: jsstring
  phone :: "jsstring option"
  marketingOptIn :: bool

section \<open>Cart engine\<close>

text \<open>
  The cart functions are the updaters handed to \<^verbatim>\<open>setCart\<close>: each maps the previous
  cart to the next one. \<^verbatim>\<open>Array.prototype.find\<close> is \<open>find\<close>; an object it returns is
  always truthy.
\<close>

datatype error = TypeError

definition addFlavor :: "flavor \<Rightarrow> cart_item list \<Rightarrow> cart_item list" where
  "addFlavor f prev =
    (let k = PRODUCT_id @ ''-'' @ f_id f in
     case find (\<lambda>p. sku p = k) prev of
       Some ex \<Rightarrow> map (\<lambda>p. if sku p = k then p\<lparr>qty := qty p + 1\<rparr> else p) prev
     | None \<Rightarrow>
         prev @
         [\<lparr>sku = k, flavorId = f_id f,
           name = PRODUCT_name @ '' '' @ [CHR 0xE2, CHR 0x80, CHR 0x94] @ '' '' @ f_name f,
           unitPrice = priceFor f, qty = 1, addons = Some []\<rparr>])"

text \<open>
  \<^verbatim>\<open>DRINKS.find((x) => x.id === id)!\<close>: the non-null assertion is erased at run time,
  so an unknown id leaves \<^verbatim>\<open>d\<close> undefined and \<^verbatim>\<open>d.id\<close> in the updater throws.
\<close>

definition addDrink :: "string \<Rightarrow> cart_item list \<Rightarrow> error + cart_item list" where
  "addDrink i prev =
    (case find (\<lambda>x. d_id x = i) DRINKS of
       None \<Rightarrow> Inl TypeError
     | Some d \<Rightarrow>
         (case find (\<lambda>p. sku p = d_id d) prev of
            Some ex \<Rightarrow>
              Inr (map (\<lambda>p. if sku p = d_id d then p\<lparr>qty := qty p + 1\<rparr> else p) prev)
          | None \<Rightarrow>
              Inr (prev @
                [\<lparr>sku = d_id d, flavorId = '''', name = d_name d, unitPrice = d_price d,
                  qty = 1, addons = Some []\<rparr>])))"

text \<open>
  \<^verbatim>\<open>ex.qty += 1\<close> writes to the first add-on that \<^verbatim>\<open>find\<close> returned; the array
  \<^verbatim>\<open>addons\<close> is a fresh copy, and the cart that still shares the add-on object is the
  one React discards. \<open>upd_first\<close> is that write on the copy.
\<close>

fun upd_first :: "('a \<Rightarrow> bool) \<Rightarrow> ('a \<Rightarrow> 'a) \<Rightarrow> 'a list \<Rightarrow> 'a list" where
  "upd_first P f [] = []"
| "upd_first P f (x # xs) = (if P x then f x # xs else x # upd_first P f xs)"

definition CHEESE_addon :: addon where
  "CHEESE_addon = \<lparr>a_id = CHEESE_id, a_name = CHEESE_name, price = CHEESE_price, a_qty = 1\<rparr>"

definition addCheeseToSouffle :: "string \<Rightarrow> cart_item list \<Rightarrow> cart_item list" where
  "addCheeseToSouffle k prev =
    map (\<lambda>p.
      if sku p \<noteq> k then p
      else
        (let as = (case addons p of Some xs \<Rightarrow> xs | None \<Rightarrow> []) in
         case find (\<lambda>a. a_id a = CHEESE_id) as of
           Some ex \<Rightarrow>
             p\<lparr>addons :=
               Some (upd_first (\<lambda>a. a_id a = CHEESE_id) (\<lambda>a. a\<lparr>a_qty := a_qty a + 1\<rparr>) as)\<rparr>
         | None \<Rightarrow> p\<lparr>addons := Some (as @ [CHEESE_addon])\<rparr>)) prev"

definition addCheeseToDrink :: "string \<Rightarrow> cart_item list \<Rightarrow> cart_item list" where
  "addCheeseToDrink k prev =
    map (\<lambda>p.
      if sku p \<noteq> k then p
      else
        (let as = (case addons p of Some xs \<Rightarrow> xs | None \<Rightarrow> []);
             mx = qty p in
         case find (\<lambda>a. a_id a = CHEESE_id) as of
           Some ex \<Rightarrow>
             (if a_qty ex < mx
              then p\<lparr>addons :=
                Some (upd_first (\<lambda>a. a_id a = CHEESE_id) (\<lambda>a. a\<lparr>a_qty := a_qty a + 1\<rparr>) as)\<rparr>
              else p\<lparr>addons := Some as\<rparr>)
         | None \<Rightarrow> p\<lparr>addons := Some (as @ [CHEESE_addon])\<rparr>)) prev"

definition inc :: "string \<Rightarrow> cart_item list \<Rightarrow> cart_item list" where
  "inc k prev = map (\<lambda>p. if sku p = k then p\<lparr>qty := qty p + 1\<rparr> else p) prev"

definition dec :: "string \<Rightarrow> cart_item list \<Rightarrow> cart_item list" where
  "dec k prev =
    (case find (\<lambda>p. sku p = k) prev of
       None \<Rightarrow> prev
     | Some x \<Rightarrow>
         (if qty x \<le> 1 then filter (\<lambda>p. sku p \<noteq> k) prev
          else map (\<lambda>p. if sku p = k then p\<lparr>qty := qty p - 1\<rparr> else p) prev))"

definition clearCart :: "cart_item list" where
  "clearCart = []"

text \<open>
  \<^verbatim>\<open>subtotal\<close> is the \<^verbatim>\<open>reduce\<close> of the source, a left fold from 0;
  \<^verbatim>\<open>i.addons || []\<close> reads a missing add-on list as empty.
\<close>

definition addons_total :: "addon list option \<Rightarrow> rat" where
  "addons_total as =
    foldl (\<lambda>a ad. a + price ad * of_int (a_qty ad)) 0 (case as of Some xs \<Rightarrow> xs | None \<Rightarrow> [])"

definition subtotal :: "cart_item list \<Rightarrow> rat" where
  "subtotal cart =
    foldl (\<lambda>s i. s + unitPrice i * of_int (qty i) + addons_total (addons i)) 0 cart"

text \<open>
  A run of user actions on the cart, in order. An exception in an updater ends the run.
\<close>

datatype cart_op =
  AddFlavor flavor
| AddDrink string
| AddCheeseToSouffle string
| AddCheeseToDrink string
| Inc string
| Dec string
| ClearCart

fun apply_op :: "cart_op \<Rightarrow> cart_item list \<Rightarrow> error + cart_item list" where
  "apply_op (AddFlavor f) c = Inr (addFlavor f c)"
| "apply_op (AddDrink i) c = addDrink i c"
| "apply_op (AddCheeseToSouffle k) c = Inr (addCheeseToSouffle k c)"
| "apply_op (AddCheeseToDrink k) c = Inr (addCheeseToDrink k c)"
| "apply_op (Inc k) c = Inr (inc k c)"
| "apply_op (Dec k) c = Inr (dec k c)"
| "apply_op ClearCart c = Inr clearCart"

fun run_ops :: "cart_op list \<Rightarrow> cart_item list \<Rightarrow> error + cart_item list" where
  "run_ops [] c = Inr c"
| "run_ops (x # xs) c = (case apply_op x c of Inl e \<Rightarrow> Inl e | Inr c' \<Rightarrow> run_ops xs c')"

subsection \<open>The add-on objects\<close>

text \<open>
  The functions above are what one render sees. Two of them also write in place:
  \<^verbatim>\<open>ex.qty += 1\<close> in \<^verbatim>\<open>addCheeseToSouffle\<close> and \<^verbatim>\<open>addCheeseToDrink\<close> changes the add-on
  object itself, and the array \<^verbatim>\<open>[...p.addons]\<close> they copy holds the same objects as
  the array of the cart before. A closure that still holds an earlier cart, such as the
  timer callback of \<^verbatim>\<open>submitOrder\<close>, sees that write. So the add-on objects get a store:
  an address is the position of the object in the store, a new object goes to its end,
  and a line of the cart holds the addresses of its add-ons.
\<close>

type_synonym heap = "addon list"

record line =
  l_sku :: string
  l_flavorId :: string
  l_name :: string
  l_unitPrice :: rat
  l_qty :: int
  l_addons :: "nat list option"

text \<open>
  The updaters on lines. The first four never touch an add-on object: they copy lines
  with the spread \<^verbatim>\<open>{ ...p, qty }\<close>, which keeps the array of the line, or make a line
  with a new empty array.
\<close>

definition addFlavor_heap :: "flavor \<Rightarrow> line list \<Rightarrow> line list" where
  "addFlavor_heap f prev =
    (let k = PRODUCT_id @ ''-'' @ f_id f in
     case find (\<lambda>p. l_sku p = k) prev of
       Some ex \<Rightarrow> map (\<lambda>p. if l_sku p = k then p\<lparr>l_qty := l_qty p + 1\<rparr> else p) prev
     | None \<Rightarrow>
         prev @
         [\<lparr>l_sku = k, l_flavorId = f_id f,
           l_name = PRODUCT_name @ '' '' @ [CHR 0xE2, CHR 0x80, CHR 0x94] @ '' '' @ f_name f,
           l_unitPrice = priceFor f, l_qty = 1, l_addons = Some []\<rparr>])"

definition addDrink_heap :: "string \<Rightarrow> line list \<Rightarrow> error + line list" where
  "addDrink_heap i prev =
    (case find (\<lambda>x. d_id x = i) DRINKS of
       None \<Rightarrow> Inl TypeError
     | Some d \<Rightarrow>
         (case find (\<lambda>p. l_sku p = d_id d) prev of
            Some ex \<Rightarrow>
              Inr (map (\<lambda>p. if l_sku p = d_id d then p\<lparr>l_qty := l_qty p + 1\<rparr> else p) prev)
          | None \<Rightarrow>
              Inr (prev @
                [\<lparr>l_sku = d_id d, l_flavorId = [], l_name = d_name d,
                  l_unitPrice = d_price d, l_qty = 1, l_addons = Some []\<rparr>])))"

definition inc_heap :: "string \<Rightarrow> line list \<Rightarrow> line list" where
  "inc_heap k prev = map (\<lambda>p. if l_sku p = k then p\<lparr>l_qty := l_qty p + 1\<rparr> else p) prev"

definition dec_heap :: "string \<Rightarrow> line list \<Rightarrow> line list" where
  "dec_heap k prev =
    (case find (\<lambda>p. l_sku p = k) prev of
       None \<Rightarrow> prev
     | Some x \<Rightarrow>
         (if l_qty x \<le> 1 then filter (\<lambda>p. l_sku p \<noteq> k) prev
          else map (\<lambda>p. if l_sku p = k then p\<lparr>l_qty := l_qty p - 1\<rparr> else p) prev))"

text \<open>
  \<^verbatim>\<open>prev.map\<close> with a callback that writes to the store: the lines are visited in
  order, each with the store the lines before it left.
\<close>

fun map_heap :: "(line \<Rightarrow> heap \<Rightarrow> line \<times> heap) \<Rightarrow> line list \<Rightarrow> heap \<Rightarrow> line list \<times> heap" where
  "map_heap f [] h = ([], h)"
| "map_heap f (p # ps) h =
    (case f p h of (p', h') \<Rightarrow> (case map_heap f ps h' of (ps', h'') \<Rightarrow> (p' # ps', h'')))"

text \<open>
  The two cheese updaters: \<open>as\<close> is the copied array (the same addresses), \<open>ex\<close> the
  address \<^verbatim>\<open>find\<close> returns, the write goes to the object at \<open>ex\<close>, and \<^verbatim>\<open>push\<close> puts
  the address of a new object at the end of the copy.
\<close>

definition addCheeseToSouffle_heap :: "string \<Rightarrow> line list \<Rightarrow> heap \<Rightarrow> line list \<times> heap" where
  "addCheeseToSouffle_heap k prev h =
    map_heap (\<lambda>p h.
      if l_sku p \<noteq> k then (p, h)
      else
        (let as = (case l_addons p of Some xs \<Rightarrow> xs | None \<Rightarrow> []) in
         case find (\<lambda>a. a_id (h ! a) = CHEESE_id) as of
           Some ex \<Rightarrow>
             (p\<lparr>l_addons := Some as\<rparr>, h[ex := (h ! ex)\<lparr>a_qty := a_qty (h ! ex) + 1\<rparr>])
         | None \<Rightarrow> (p\<lparr>l_addons := Some (as @ [length h])\<rparr>, h @ [CHEESE_addon]))) prev h"

definition addCheeseToDrink_heap :: "string \<Rightarrow> line list \<Rightarrow> heap \<Rightarrow> line list \<times> heap" where
  "addCheeseToDrink_heap k prev h =
    map_heap (\<lambda>p h.
      if l_sku p \<noteq> k then (p, h)
      else
        (let as = (case l_addons p of Some xs \<Rightarrow> xs | None \<Rightarrow> []);
             mx = l_qty p in
         case find (\<lambda>a. a_id (h ! a) = CHEESE_id) as of
           Some ex \<Rightarrow>
             (if a_qty (h ! ex) < mx
              then (p\<lparr>l_addons := Some as\<rparr>, h[ex := (h ! ex)\<lparr>a_qty := a_qty (h ! ex) + 1\<rparr>])
              else (p\<lparr>l_addons := Some as\<rparr>, h))
         | None \<Rightarrow> (p\<lparr>l_addons := Some (as @ [length h])\<rparr>, h @ [CHEESE_addon]))) prev h"

fun apply_op_heap :: "cart_op \<Rightarrow> line list \<Rightarrow> heap \<Rightarrow> error + line list \<times> heap" where
  "apply_op_heap (AddFlavor f) c h = Inr (addFlavor_heap f c, h)"
| "apply_op_heap (AddDrink i) c h =
    (case addDrink_heap i c of Inl e \<Rightarrow> Inl e | Inr c' \<Rightarrow> Inr (c', h))"
| "apply_op_heap (AddCheeseToSouffle k) c h = Inr (addCheeseToSouffle_heap k c h)"
| "apply_op_heap (AddCheeseToDrink k) c h = Inr (addCheeseToDrink_heap k c h)"
| "apply_op_heap (Inc k) c h = Inr (inc_heap k c, h)"
| "apply_op_heap (Dec k) c h = Inr (dec_heap k c, h)"
| "apply_op_heap ClearCart c h = Inr ([], h)"

text \<open>
  The store after a run of user actions that starts from the lines \<open>c\<close>; an
  exception in an updater ends the run with the store as it is.
\<close>

fun run_ops_heap :: "cart_op list \<Rightarrow> line list \<Rightarrow> heap \<Rightarrow> heap" where
  "run_ops_heap [] c h = h"
| "run_ops_heap (x # xs) c h =
    (case apply_op_heap x c h of Inl e \<Rightarrow> h | Inr (c', h') \<Rightarrow> run_ops_heap xs c' h')"

text \<open>
  A cart as lines over a store, every add-on of it an object of its own behind the
  objects already there, and the cart that lines show over a store.
\<close>

fun load_cart :: "cart_item list \<Rightarrow> heap \<Rightarrow> line list \<times> heap" where
  "load_cart [] h = ([], h)"
| "load_cart (p # ps) h =
    (let as = (case addons p of Some xs \<Rightarrow> xs | None \<Rightarrow> []);
         l = \<lparr>l_sku = sku p, l_flavorId = flavorId p, l_name = name p,
              l_unitPrice = unitPrice p, l_qty = qty p,
              l_addons =
                (case addons p of
                   Some xs \<Rightarrow> Some [length h..<length h + length xs]
                 | None \<Rightarrow> None)\<rparr>
     in case load_cart ps (h @ as) of (ls, h') \<Rightarrow> (l # ls, h'))"

definition cart_item_at :: "heap \<Rightarrow> line \<Rightarrow> cart_item" where
  "cart_item_at h l =
    \<lparr>sku = l_sku l, flavorId = l_flavorId l, name = l_name l, unitPrice = l_unitPrice l,
     qty = l_qty l,
     addons = (case l_addons l of Some as \<Rightarrow> Some (map (\<lambda>a. h ! a) as) | None \<Rightarrow> None)\<rparr>"

text \<open>
  What a closure over the cart \<open>c\<close> finds in it after the user actions \<open>ops\<close> that
  followed its render: the lines of \<open>c\<close>, their fields and arrays as they were (no
  updater writes to a line or to an array of an earlier cart), the add-on objects as
  the actions left them.
\<close>

definition cart_seen_after :: "cart_op list \<Rightarrow> cart_item list \<Rightarrow> cart_item list" where
  "cart_seen_after ops c =
    (case load_cart c [] of (ls, h) \<Rightarrow> map (cart_item_at (run_ops_heap ops ls h)) ls)"

section \<open>The localStorage back end\<close>

text \<open>
  What \<^verbatim>\<open>localStorage\<close> holds under \<^verbatim>\<open>LS_ORDERS_KEY\<close>, as \<^verbatim>\<open>getAllOrders\<close> sees it:
  no item (\<^verbatim>\<open>getItem\<close> returns \<^verbatim>\<open>null\<close>, or the empty string, both falsy), text that
  \<^verbatim>\<open>JSON.parse\<close> rejects, a JSON value that is not an array (\<^verbatim>\<open>arr.map\<close> is then
  not a function), or an array. An array element is \<^verbatim>\<open>null\<close> (\<open>None\<close>: reading a
  property of it throws) or a record; an element that is a number, a string or a
  boolean has none of the fields and is the record with every field missing. In a
  stored record every field may be missing (\<open>None\<close>: absent or \<^verbatim>\<open>null\<close>), \<^verbatim>\<open>status\<close>
  may hold any JSON value, and the other fields, when present, hold a value of their
  declared type, as \<^verbatim>\<open>saveAllOrders\<close> writes them.
\<close>

datatype jsval = JNull | JBool bool | JNum rat | JStr string | JArr | JObj

record raw_order =
  r_id :: "string option"
  r_items :: "order_item list option"
  r_total :: "rat option"
  r_status :: "jsval option"
  r_createdAt :: "int option"
  r_expiresAt :: "int option"
  r_note :: "jsstring option"
  r_pickupName :: "jsstring option"
  r_phone :: "jsstring option"
  r_marketingOptIn :: "bool option"

datatype stored = NoItem | BadJson | NotArray | Records "raw_order option list"

text \<open>The counter under \<^verbatim>\<open>LS_SEQ_KEY\<close> is written by \<^verbatim>\<open>nextQueueNumber\<close> alone.\<close>

record local_storage =
  ls_orders :: stored
  ls_seq :: "(int \<times> nat) option"

fun status_name :: "status \<Rightarrow> string" where
  "status_name New = ''New''"
| "status_name Paid = ''Paid''"
| "status_name Preparing = ''Preparing''"
| "status_name Ready = ''Ready''"
| "status_name Done = ''Done''"
| "status_name Cancelled = ''Cancelled''"

definition allowed :: "status list" where
  "allowed = [New, Paid, Preparing, Ready, Done, Cancelled]"

text \<open>
  \<^verbatim>\<open>allowed.includes(s) ? s : "New"\<close>: only a string that is one of the six names is
  kept.
\<close>

definition normalize :: "jsval option \<Rightarrow> status" where
  "normalize s =
    (case s of
       Some (JStr x) \<Rightarrow>
         (case find (\<lambda>t. status_name t = x) allowed of Some t \<Rightarrow> t | None \<Rightarrow> New)
     | _ \<Rightarrow> New)"

text \<open>
  One record of the \<^verbatim>\<open>arr.map\<close> in \<^verbatim>\<open>getAllOrders\<close>; \<open>now\<close> is what \<^verbatim>\<open>Date.now()\<close>
  returns if \<^verbatim>\<open>createdAt\<close> is missing. \<^verbatim>\<open>o.expiresAt ? ... : undefined\<close> drops a
  zero as well as a missing value.
\<close>

definition normalize_order :: "int \<Rightarrow> raw_order \<Rightarrow> order" where
  "normalize_order now r =
    \<lparr>o_id = (case r_id r of Some i \<Rightarrow> i | None \<Rightarrow> []),
     items = (case r_items r of Some xs \<Rightarrow> xs | None \<Rightarrow> []),
     total = (case r_total r of Some t \<Rightarrow> t | None \<Rightarrow> 0),
     status = normalize (r_status r),
     createdAt = (case r_createdAt r of Some t \<Rightarrow> t | None \<Rightarrow> now),
     expiresAt =
       (case r_expiresAt r of Some e \<Rightarrow> (if e \<noteq> 0 then Some e else None) | None \<Rightarrow> None),
     o_note = r_note r,
     pickupName = (case r_pickupName r of Some n \<Rightarrow> n | None \<Rightarrow> []),
     phone = r_phone r,
     marketingOptIn = (case r_marketingOptIn r of Some b \<Rightarrow> b | None \<Rightarrow> False)\<rparr>"

text \<open>
  \<open>clk i\<close> is the reading of \<^verbatim>\<open>Date.now()\<close> while record \<open>i\<close> is normalised. Any
  exception inside the \<^verbatim>\<open>try\<close> makes the whole read return the empty list.
\<close>

definition getAllOrders :: "(nat \<Rightarrow> int) \<Rightarrow> local_storage \<Rightarrow> order list" where
  "getAllOrders clk ls =
    (case ls_orders ls of
       Records rs \<Rightarrow>
         (case those rs of
            None \<Rightarrow> []
          | Some xs \<Rightarrow> map (\<lambda>(i, r). normalize_order (clk i) r) (enumerate 0 xs))
     | _ \<Rightarrow> [])"

text \<open>\<^verbatim>\<open>JSON.stringify\<close> of an order leaves out the fields that are \<^verbatim>\<open>undefined\<close>.\<close>

definition raw_of :: "order \<Rightarrow> raw_order" where
  "raw_of x =
    \<lparr>r_id = Some (o_id x), r_items = Some (items x), r_total = Some (total x),
     r_status = Some (JStr (status_name (status x))), r_createdAt = Some (createdAt x),
     r_expiresAt = expiresAt x, r_note = o_note x, r_pickupName = Some (pickupName x),
     r_phone = phone x, r_marketingOptIn = Some (marketingOptIn x)\<rparr>"

definition saveAllOrders :: "order list \<Rightarrow> local_storage \<Rightarrow> local_storage" where
  "saveAllOrders os ls = ls\<lparr>ls_orders := Records (map (\<lambda>x. Some (raw_of x)) os)\<rparr>"

subsection \<open>Queue numbers\<close>

text \<open>\<^verbatim>\<open>String(n)\<close> for a counter and \<^verbatim>\<open>padStart(3, "0")\<close>.\<close>

definition digit_char :: "nat \<Rightarrow> char" where
  "digit_char d = char_of (48 + d)"

fun String_nat :: "nat \<Rightarrow> string" where
  "String_nat n =
    (if n < 10 then [digit_char n] else String_nat (n div 10) @ [digit_char (n mod 10)])"

declare String_nat.simps [simp del]

definition padStart :: "nat \<Rightarrow> char \<Rightarrow> string \<Rightarrow> string" where
  "padStart w c s = replicate (w - length s) c @ s"

definition nextQueueNumber :: "int \<Rightarrow> local_storage \<Rightarrow> string \<times> local_storage" where
  "nextQueueNumber nowYear ls =
    (let (y, n) = (case ls_seq ls of Some yn \<Rightarrow> yn | None \<Rightarrow> (nowYear, 0));
         (y, n) = (if y \<noteq> nowYear then (nowYear, 0) else (y, n));
         n = n + 1
     in (''Q-'' @ padStart 3 (CHR ''0'') (String_nat n), ls\<lparr>ls_seq := Some (y, n)\<rparr>))"

section \<open>The App component\<close>

text \<open>
  The React state of \<^verbatim>\<open>App\<close> (the \<^verbatim>\<open>useState\<close> cells), with \<open>_s\<close> on the names that an
  order field has too.
\<close>

record app =
  cart :: "cart_item list"
  note_s :: jsstring
  pickupName_s :: jsstring
  phone_s :: jsstring
  marketing :: bool
  placing :: bool
  placed :: "order option"
  orders :: "order list"
  staffAuthed :: bool

text \<open>
  What the environment hands to one submission: the calendar year that
  \<^verbatim>\<open>nextQueueNumber\<close> observes, the two readings of \<^verbatim>\<open>Date.now()\<close> in the order literal
  (\<^verbatim>\<open>createdAt\<close> first, \<^verbatim>\<open>expiresAt\<close> second), the readings inside \<^verbatim>\<open>getAllOrders\<close>,
  and the cart buttons the customer presses during the 400 ms between the call of
  \<^verbatim>\<open>submitOrder\<close> and its timer callback (only the Place button is disabled then).
\<close>

record env =
  nowYear :: int
  now_createdAt :: int
  now_expiresAt :: int
  now_read :: "nat \<Rightarrow> int"
  during :: "cart_op list"

text \<open>
  \<^verbatim>\<open>String.prototype.trim\<close> strips the code units of ECMAScript's WhiteSpace and
  LineTerminator from both ends: tab, line feed, vertical tab, form feed, carriage
  return, space, U+00A0, U+1680, U+2000 to U+200A, U+2028, U+2029, U+202F, U+205F,
  U+3000 and U+FEFF.
\<close>

definition is_ws :: "nat \<Rightarrow> bool" where
  "is_ws c =
    (c \<in> set [0x09, 0x0A, 0x0B, 0x0C, 0x0D, 0x20, 0xA0, 0x1680, 0x2000, 0x2001, 0x2002,
       0x2003, 0x2004, 0x2005, 0x2006, 0x2007, 0x2008, 0x2009, 0x200A, 0x2028, 0x2029,
       0x202F, 0x205F, 0x3000, 0xFEFF])"

definition trim :: "jsstring \<Rightarrow> jsstring" where
  "trim s = rev (dropWhile is_ws (rev (dropWhile is_ws s)))"

text \<open>
  \<^verbatim>\<open>parseFloat(x.toFixed(2))\<close>: \<^verbatim>\<open>toFixed\<close> works on the magnitude, takes the integer
  \<open>n\<close> with \<open>n / 100\<close> nearest to it (the larger of two), and prints the number itself
  from \<open>10^21\<close> on.
\<close>

definition toFixed2 :: "rat \<Rightarrow> rat" where
  "toFixed2 x =
    (if 10 ^ 21 \<le> \<bar>x\<bar> then x
     else if x < 0 then - (of_int \<lfloor>- x * 100 + 1 / 2\<rfloor> / 100)
     else of_int \<lfloor>x * 100 + 1 / 2\<rfloor> / 100)"

definition order_item_of :: "cart_item \<Rightarrow> order_item" where
  "order_item_of c =
    \<lparr>oi_sku = sku c, oi_name = name c, oi_unitPrice = unitPrice c, oi_qty = qty c,
     oi_addons = addons c\<rparr>"

text \<open>
  \<^verbatim>\<open>submitOrder\<close> with its timer callback run to the end. The callback reads the form
  fields, the memoised \<^verbatim>\<open>subtotal\<close> and the \<^verbatim>\<open>cart\<close> of the render that called
  \<^verbatim>\<open>submitOrder\<close>: the subtotal is the number computed at that render, the cart is read
  when the timer fires, its add-on objects as the presses during the delay left them.
  The result is the alert shown (if any), the React state and the storage; every cell a
  press could have changed is set by the callback.
\<close>

definition submitOrder :: "env \<Rightarrow> app \<Rightarrow> local_storage \<Rightarrow> string option \<times> app \<times> local_storage" where
  "submitOrder e st ls =
    (if cart st = [] then (None, st, ls)
     else if trim (pickupName_s st) = [] then (Some ''Please enter a pickup name.'', st, ls)
     else
       (let (q, ls1) = nextQueueNumber (nowYear e) ls;
            ord =
              \<lparr>o_id = q,
               items = map order_item_of (cart_seen_after (during e) (cart st)),
               total = toFixed2 (subtotal (cart st)),
               status = New,
               createdAt = now_createdAt e,
               expiresAt = Some (now_expiresAt e + PAYMENT_WINDOW_MIN * 60 * 1000),
               o_note = (if note_s st = [] then None else Some (note_s st)),
               pickupName = trim (pickupName_s st),
               phone = (if trim (phone_s st) = [] then None else Some (trim (phone_s st))),
               marketingOptIn = marketing st\<rparr>;
            next = take 300 (ord # getAllOrders (now_read e) ls1)
        in (None,
            st\<lparr>orders := next, placed := Some ord, cart := [], note_s := [],
               pickupName_s := [], phone_s := [], marketing := True, placing := False\<rparr>,
            saveAllOrders next ls1)))"

text \<open>
  The body of the 30-second timer: \<open>now\<close> is its reading of \<^verbatim>\<open>Date.now()\<close>. The test
  \<^verbatim>\<open>o.expiresAt && now > o.expiresAt\<close> is false for a missing and for a zero time stamp.
\<close>

definition overdue :: "int \<Rightarrow> order \<Rightarrow> bool" where
  "overdue now x =
    (status x = New \<and> (case expiresAt x of None \<Rightarrow> False | Some t \<Rightarrow> t \<noteq> 0 \<and> now > t))"

definition sweep :: "int \<Rightarrow> (nat \<Rightarrow> int) \<Rightarrow> app \<Rightarrow> local_storage \<Rightarrow> app \<times> local_storage" where
  "sweep now clk st ls =
    (let current = getAllOrders clk ls;
         mutated = list_ex (overdue now) current;
         next = map (\<lambda>x. if overdue now x then x\<lparr>status := Cancelled\<rparr> else x) current
     in if mutated then (st\<lparr>orders := next\<rparr>, saveAllOrders next ls) else (st, ls))"

subsection \<open>The staff board\<close>

text \<open>\<^verbatim>\<open>Partial<Order>\<close>: a field that is \<open>None\<close> is not in the patch.\<close>

record order_patch =
  p_id :: "string option"
  p_items :: "order_item list option"
  p_total :: "rat option"
  p_status :: "status option"
  p_createdAt :: "int option"
  p_expiresAt :: "int option option"
  p_note :: "jsstring option option"
  p_pickupName :: "jsstring option"
  p_phone :: "jsstring option option"
  p_marketingOptIn :: "bool option"

definition no_patch :: order_patch where
  "no_patch =
    \<lparr>p_id = None, p_items = None, p_total = None, p_status = None, p_createdAt = None,
     p_expiresAt = None, p_note = None, p_pickupName = None, p_phone = None,
     p_marketingOptIn = None\<rparr>"

text \<open>The spread \<^verbatim>\<open>{ ...o, ...patch }\<close>.\<close>

definition apply_patch :: "order_patch \<Rightarrow> order \<Rightarrow> order" where
  "apply_patch p x =
    \<lparr>o_id = (case p_id p of Some v \<Rightarrow> v | None \<Rightarrow> o_id x),
     items = (case p_items p of Some v \<Rightarrow> v | None \<Rightarrow> items x),
     total = (case p_total p of Some v \<Rightarrow> v | None \<Rightarrow> total x),
     status = (case p_status p of Some v \<Rightarrow> v | None \<Rightarrow> status x),
     createdAt = (case p_createdAt p of Some v \<Rightarrow> v | None \<Rightarrow> createdAt x),
     expiresAt = (case p_expiresAt p of Some v \<Rightarrow> v | None \<Rightarrow> expiresAt x),
     o_note = (case p_note p of Some v \<Rightarrow> v | None \<Rightarrow> o_note x),
     pickupName = (case p_pickupName p of Some v \<Rightarrow> v | None \<Rightarrow> pickupName x),
     phone = (case p_phone p of Some v \<Rightarrow> v | None \<Rightarrow> phone x),
     marketingOptIn = (case p_marketingOptIn p of Some v \<Rightarrow> v | None \<Rightarrow> marketingOptIn x)\<rparr>"

definition updateOrder ::
  "(nat \<Rightarrow> int) \<Rightarrow> string \<Rightarrow> order_patch \<Rightarrow> app \<Rightarrow> local_storage \<Rightarrow> app \<times> local_storage" where
  "updateOrder clk i p st ls =
    (let next = map (\<lambda>x. if o_id x = i then apply_patch p x else x) (getAllOrders clk ls)
     in (st\<lparr>orders := next\<rparr>, saveAllOrders next ls))"

definition deleteOrder ::
  "(nat \<Rightarrow> int) \<Rightarrow> string \<Rightarrow> app \<Rightarrow> local_storage \<Rightarrow> app \<times> local_storage" where
  "deleteOrder clk i st ls =
    (let next = filter (\<lambda>x. o_id x \<noteq> i) (getAllOrders clk ls)
     in (st\<lparr>orders := next\<rparr>, saveAllOrders next ls))"

text \<open>\<open>confirmed\<close> is the answer to the \<^verbatim>\<open>confirm\<close> dialog.\<close>

definition wipeAll :: "bool \<Rightarrow> app \<Rightarrow> local_storage \<Rightarrow> app \<times> local_storage" where
  "wipeAll confirmed st ls =
    (if confirmed then (st\<lparr>orders := []\<rparr>, (saveAllOrders [] ls)\<lparr>ls_seq := None\<rparr>)
     else (st, ls))"

text \<open>
  The status buttons that \<^verbatim>\<open>StaffBoard\<close> renders on the card of an order with status
  \<open>s\<close>, each named by the status its click writes, in the order of the source.
\<close>

definition status_buttons :: "status \<Rightarrow> status list" where
  "status_buttons s =
    (if s = New then [Paid] else []) @
    (if s \<noteq> Preparing then [Preparing] else []) @
    (if s \<noteq> Ready then [Ready] else []) @
    (if s \<noteq> Done then [Done] else []) @
    (if s \<noteq> Cancelled then [Cancelled] else [])"

text \<open>
  The cards of the board: the orders newest first, under the filter chosen in the bar
  above them (\<^verbatim>\<open>Active\<close> when the board opens, \<^verbatim>\<open>All\<close>, or one status).
\<close>

datatype board_filter = FActive | FAll | FStatus status

definition filtered :: "board_filter \<Rightarrow> order list \<Rightarrow> order list" where
  "filtered flt os =
    (let base = sort_key (\<lambda>x. - createdAt x) os in
     case flt of
       FAll \<Rightarrow> base
     | FActive \<Rightarrow> filter (\<lambda>x. status x \<in> set [New, Paid, Preparing, Ready]) base
     | FStatus s \<Rightarrow> filter (\<lambda>x. status x = s) base)"

text \<open>
  The operator clicks the button for status \<open>t\<close> on the card of order \<open>x\<close>:
  \<^verbatim>\<open>updateOrder(o.id, { status: t })\<close>. The cards are rendered once the board is
  unlocked; \<open>None\<close> means the board shows no such button.
\<close>

definition click_status ::
  "(nat \<Rightarrow> int) \<Rightarrow> board_filter \<Rightarrow> order \<Rightarrow> status \<Rightarrow> app \<Rightarrow> local_storage \<Rightarrow>
    (app \<times> local_storage) option" where
  "click_status clk flt x t st ls =
    (if staffAuthed st \<and> x \<in> set (filtered flt (orders st)) \<and>
        t \<in> set (status_buttons (status x))
     then Some (updateOrder clk (o_id x) (no_patch\<lparr>p_status := Some t\<rparr>) st ls)
     else None)"

section \<open>Vocabulary of the properties\<close>

text \<open>
  The calls that add a line (\<^verbatim>\<open>addFlavor\<close>, \<^verbatim>\<open>addDrink\<close>), the sku a call is aimed at,
  the quantity a cart holds of a sku (0 if it has no such line), and the step both
  adding functions make once the sku and the new line are known.
\<close>

fun is_add :: "cart_op \<Rightarrow> bool" where
  "is_add (AddFlavor f) = True"
| "is_add (AddDrink i) = True"
| "is_add _ = False"

fun target :: "cart_op \<Rightarrow> string" where
  "target (AddFlavor f) = PRODUCT_id @ ''-'' @ f_id f"
| "target (AddDrink i) = i"
| "target (AddCheeseToSouffle k) = k"
| "target (AddCheeseToDrink k) = k"
| "target (Inc k) = k"
| "target (Dec k) = k"
| "target ClearCart = []"

definition qty_of :: "string \<Rightarrow> cart_item list \<Rightarrow> int" where
  "qty_of k c = (case find (\<lambda>p. sku p = k) c of Some x \<Rightarrow> qty x | None \<Rightarrow> 0)"

definition add_line :: "string \<Rightarrow> cart_item \<Rightarrow> cart_item list \<Rightarrow> cart_item list" where
  "add_line k new c =
    (case find (\<lambda>p. sku p = k) c of
       Some ex \<Rightarrow> map (\<lambda>p. if sku p = k then p\<lparr>qty := qty p + 1\<rparr> else p) c
     | None \<Rightarrow> c @ [new])"

fun is_drink_op :: "cart_op \<Rightarrow> bool" where
  "is_drink_op (AddDrink i) = True"
| "is_drink_op (AddCheeseToDrink k) = True"
| "is_drink_op _ = False"

definition addons_of :: "cart_item \<Rightarrow> addon list" where
  "addons_of p = (case addons p of Some xs \<Rightarrow> xs | None \<Rightarrow> [])"

definition capped :: "cart_item list \<Rightarrow> bool" where
  "capped c = (\<forall>p\<in>set c. 1 \<le> qty p \<and> (\<forall>a\<in>set (addons_of p). a_qty a \<le> qty p))"

text \<open>What \<^verbatim>\<open>addCheeseToDrink\<close> makes of the line it is aimed at.\<close>

definition drink_cheese_line :: "cart_item \<Rightarrow> cart_item" where
  "drink_cheese_line p =
    (let as = (case addons p of Some xs \<Rightarrow> xs | None \<Rightarrow> []);
         mx = qty p in
     case find (\<lambda>a. a_id a = CHEESE_id) as of
       Some ex \<Rightarrow>
         (if a_qty ex < mx
          then p\<lparr>addons :=
            Some (upd_first (\<lambda>a. a_id a = CHEESE_id) (\<lambda>a. a\<lparr>a_qty := a_qty a + 1\<rparr>) as)\<rparr>
          else p\<lparr>addons := Some as\<rparr>)
     | None \<Rightarrow> p\<lparr>addons := Some (as @ [CHEESE_addon])\<rparr>)"

text \<open>
  The queue number of a counter value, the counter a queue number shows (its digits
  after the prefix, read in base ten), the queue numbers of \<open>k\<close> calls in a row that
  all observe the year \<open>y\<close>, and the count the storage holds for the year \<open>y\<close>.
\<close>

definition queue_number :: "nat \<Rightarrow> string" where
  "queue_number n = ''Q-'' @ padStart 3 (CHR ''0'') (String_nat n)"

definition queue_counter :: "string \<Rightarrow> nat" where
  "queue_counter q = foldl (\<lambda>a c. 10 * a + (of_char c - 48)) 0 (drop 2 q)"

fun issue :: "int \<Rightarrow> nat \<Rightarrow> local_storage \<Rightarrow> string list" where
  "issue y 0 ls = []"
| "issue y (Suc k) ls = (case nextQueueNumber y ls of (q, ls') \<Rightarrow> q # issue y k ls')"

definition stored_count :: "int \<Rightarrow> local_storage \<Rightarrow> nat" where
  "stored_count y ls = (case ls_seq ls of Some (y0, n) \<Rightarrow> if y0 = y then n else 0 | None \<Rightarrow> 0)"

text \<open>
  The expiry rule in the words of the specification: an order that is \<open>New\<close> and whose
  \<open>expiresAt\<close> is earlier than \<open>now\<close> becomes \<open>Cancelled\<close>, and nothing else changes.
\<close>

definition cancel_overdue :: "int \<Rightarrow> order list \<Rightarrow> order list" where
  "cancel_overdue now os =
    map (\<lambda>x. if status x = New \<and> (case expiresAt x of Some t \<Rightarrow> t < now | None \<Rightarrow> False)
      then x\<lparr>status := Cancelled\<rparr> else x) os"

text \<open>
  The order literal that the timer callback of \<^verbatim>\<open>submitOrder\<close> builds from the state
  \<open>st\<close>, the storage \<open>ls\<close> and the readings \<open>e\<close>.
\<close>

definition the_order :: "env \<Rightarrow> app \<Rightarrow> local_storage \<Rightarrow> order" where
  "the_order e st ls =
    \<lparr>o_id = fst (nextQueueNumber (nowYear e) ls),
     items = map order_item_of (cart_seen_after (during e) (cart st)),
     total = toFixed2 (subtotal (cart st)),
     status = New,
     createdAt = now_createdAt e,
     expiresAt = Some (now_expiresAt e + PAYMENT_WINDOW_MIN * 60 * 1000),
     o_note = (if note_s st = [] then None else Some (note_s st)),
     pickupName = trim (pickupName_s st),
     phone = (if trim (phone_s st) = [] then None else Some (trim (phone_s st))),
     marketingOptIn = marketing st\<rparr>"

text \<open>
  The total in the words of the specification: over the line items, unit price times
  quantity plus, over the add-ons of the item, add-on price times add-on quantity.
\<close>

definition line_total :: "order_item \<Rightarrow> rat" where
  "line_total i =
    oi_unitPrice i * of_int (oi_qty i) +
    sum_list (map (\<lambda>a. price a * of_int (a_qty a))
      (case oi_addons i of Some xs \<Rightarrow> xs | None \<Rightarrow> []))"

definition items_sum :: "order_item list \<Rightarrow> rat" where
  "items_sum xs = sum_list (map line_total xs)"

subsection \<open>Lines over the store\<close>

text \<open>
  What \<^verbatim>\<open>addCheeseToSouffle\<close> makes of the line it is aimed at, and what the two cheese
  updaters over the store make of it: the bodies of their callbacks after the test of
  the sku.
\<close>

definition souffle_cheese_line :: "cart_item \<Rightarrow> cart_item" where
  "souffle_cheese_line p =
    (let as = (case addons p of Some xs \<Rightarrow> xs | None \<Rightarrow> []) in
     case find (\<lambda>a. a_id a = CHEESE_id) as of
       Some ex \<Rightarrow>
         p\<lparr>addons :=
           Some (upd_first (\<lambda>a. a_id a = CHEESE_id) (\<lambda>a. a\<lparr>a_qty := a_qty a + 1\<rparr>) as)\<rparr>
     | None \<Rightarrow> p\<lparr>addons := Some (as @ [CHEESE_addon])\<rparr>)"

definition souffle_cheese_line_heap :: "line \<Rightarrow> heap \<Rightarrow> line \<times> heap" where
  "souffle_cheese_line_heap p h =
    (let as = (case l_addons p of Some xs \<Rightarrow> xs | None \<Rightarrow> []) in
     case find (\<lambda>a. a_id (h ! a) = CHEESE_id) as of
       Some ex \<Rightarrow>
         (p\<lparr>l_addons := Some as\<rparr>, h[ex := (h ! ex)\<lparr>a_qty := a_qty (h ! ex) + 1\<rparr>])
     | None \<Rightarrow> (p\<lparr>l_addons := Some (as @ [length h])\<rparr>, h @ [CHEESE_addon]))"

definition drink_cheese_line_heap :: "line \<Rightarrow> heap \<Rightarrow> line \<times> heap" where
  "drink_cheese_line_heap p h =
    (let as = (case l_addons p of Some xs \<Rightarrow> xs | None \<Rightarrow> []);
         mx = l_qty p in
     case find (\<lambda>a. a_id (h ! a) = CHEESE_id) as of
       Some ex \<Rightarrow>
         (if a_qty (h ! ex) < mx
          then (p\<lparr>l_addons := Some as\<rparr>, h[ex := (h ! ex)\<lparr>a_qty := a_qty (h ! ex) + 1\<rparr>])
          else (p\<lparr>l_addons := Some as\<rparr>, h))
     | None \<Rightarrow> (p\<lparr>l_addons := Some (as @ [length h])\<rparr>, h @ [CHEESE_addon]))"

text \<open>
  The addresses a line holds and those of a cart, the cart that lines show over a
  store, and the store being sound for the lines: no add-on object is in two arrays
  or twice in one, and every address is of an object.
\<close>

definition refs_of :: "line \<Rightarrow> nat list" where
  "refs_of l = (case l_addons l of Some xs \<Rightarrow> xs | None \<Rightarrow> [])"

definition cart_refs :: "line list \<Rightarrow> nat list" where
  "cart_refs c = concat (map refs_of c)"

definition cart_at :: "heap \<Rightarrow> line list \<Rightarrow> cart_item list" where
  "cart_at h c = map (cart_item_at h) c"

definition sound_store :: "line list \<Rightarrow> heap \<Rightarrow> bool" where
  "sound_store c h =
    (distinct (concat (map refs_of c)) \<and> (\<forall>a\<in>set (concat (map refs_of c)). a < length h))"

text \<open>
  A step from the line \<open>p\<close> over \<open>h\<close> to \<open>p'\<close> over \<open>h'\<close> shows \<open>v\<close>: the new line reads as
  \<open>v\<close>, the store only grew, the objects outside the line are as they were, and the
  line holds objects it held or new ones, each once. The same for a run over the
  lines of a cart.
\<close>

definition step_shows :: "line \<Rightarrow> heap \<Rightarrow> line \<Rightarrow> heap \<Rightarrow> cart_item \<Rightarrow> bool" where
  "step_shows p h p' h' v =
    (cart_item_at h' p' = v \<and> length h \<le> length h' \<and>
     (\<forall>a<length h. a \<notin> set (refs_of p) \<longrightarrow> h' ! a = h ! a) \<and>
     set (refs_of p') \<subseteq> set (refs_of p) \<union> {length h..<length h'} \<and>
     distinct (refs_of p'))"

definition run_shows :: "line list \<Rightarrow> heap \<Rightarrow> line list \<Rightarrow> heap \<Rightarrow> cart_item list \<Rightarrow> bool" where
  "run_shows c h c' h' v =
    (cart_at h' c' = v \<and> length h \<le> length h' \<and>
     (\<forall>a<length h. a \<notin> set (cart_refs c) \<longrightarrow> h' ! a = h ! a) \<and>
     set (cart_refs c') \<subseteq> set (cart_refs c) \<union> {length h..<length h'} \<and>
     distinct (cart_refs c') \<and> (\<forall>a\<in>set (cart_refs c'). a < length h'))"

section \<open>Example inputs\<close>

definition ex_item :: "string \<Rightarrow> int \<Rightarrow> cart_item" where
  "ex_item k n = \<lparr>sku = k, flavorId = [], name = k, unitPrice = 3, qty = n, addons = Some []\<rparr>"

definition ex_app :: app where
  "ex_app =
    \<lparr>cart = [ex_item ''drink-hojicha'' 2], note_s = [], pickupName_s = map of_char '' Aisyah '',
     phone_s = [], marketing = True, placing = False, placed = None, orders = [],
     staffAuthed = False\<rparr>"

definition ex_env :: "int \<Rightarrow> int \<Rightarrow> env" where
  "ex_env t1 t2 =
    \<lparr>nowYear = 2025, now_createdAt = t1, now_expiresAt = t2, now_read = (\<lambda>i. t2),
     during = []\<rparr>"

definition empty_record :: raw_order where
  "empty_record =
    \<lparr>r_id = None, r_items = None, r_total = None, r_status = None, r_createdAt = None,
     r_expiresAt = None, r_note = None, r_pickupName = None, r_phone = None,
     r_marketingOptIn = None\<rparr>"

definition ex_raw_storage :: local_storage where
  "ex_raw_storage =
    \<lparr>ls_orders =
       Records
        [Some (empty_record\<lparr>r_id := Some ''Q-002'', r_status := Some (JStr ''Served'')\<rparr>),
         Some (empty_record\<lparr>r_id := Some ''Q-001'', r_status := Some (JStr ''Ready''),
           r_total := Some 15, r_createdAt := Some 1000, r_pickupName := Some (map of_char ''Aisyah''),
           r_marketingOptIn := Some True\<rparr>)],
     ls_seq = Some (2025, 2)\<rparr>"

definition ex_storage :: local_storage where
  "ex_storage = \<lparr>ls_orders = NoItem, ls_seq = None\<rparr>"

definition ex_adds :: "cart_op list" where
  "ex_adds =
    [AddFlavor (mk_flavor ''van'' ''Vanilla'' None None), AddDrink ''drink-hojicha'',
     AddFlavor (mk_flavor ''van'' ''Vanilla'' None None)]"

definition ex_drink_ops :: "cart_op list" where
  "ex_drink_ops =
    [AddDrink ''drink-hojicha'', AddCheeseToDrink ''drink-hojicha'',
     AddCheeseToDrink ''drink-hojicha'', AddDrink ''drink-hojicha'',
     AddCheeseToDrink ''drink-hojicha'', AddCheeseToDrink ''drink-hojicha'']"

definition ex_cheese_ops :: "cart_op list" where
  "ex_cheese_ops =
    [AddFlavor (mk_flavor ''van'' ''Vanilla'' None None), AddCheeseToSouffle ''souffle-van'']"

definition ex_cheese_cart :: "cart_item list" where
  "ex_cheese_cart =
    [\<lparr>sku = ''souffle-van'', flavorId = ''van'',
      name = PRODUCT_name @ '' '' @ [CHR 0xE2, CHR 0x80, CHR 0x94] @ '' '' @ ''Vanilla'',
      unitPrice = 12, qty = 1, addons = Some [CHEESE_addon]\<rparr>]"

definition ex_done :: order where
  "ex_done =
    \<lparr>o_id = ''Q-001'', items = [], total = 15, status = Done, createdAt = 1000,
     expiresAt = Some 601000, o_note = None, pickupName = map of_char ''Aisyah'', phone = None,
     marketingOptIn = False\<rparr>"

definition ex_board :: app where
  "ex_board = ex_app\<lparr>orders := [ex_done], staffAuthed := True\<rparr>"

definition ex_board_storage :: local_storage where
  "ex_board_storage = saveAllOrders [ex_done] ex_storage"

definition ex_new :: order where
  "ex_new = ex_done\<lparr>status := New\<rparr>"

definition ex_new_storage :: local_storage where
  "ex_new_storage = saveAllOrders [ex_new] ex_storage"

section \<open>Properties of the cart engine\<close>

lemma add_line_skus:
  assumes "sku new = k"
  shows "map sku (add_line k new c) = (if k \<in> sku ` set c then map sku c else map sku c @ [k])"
proof (cases "find (\<lambda>p. sku p = k) c")
  case None
  then have "k \<notin> sku ` set c" by (auto simp: find_None_iff)
  with None assms show ?thesis by (simp add: add_line_def)
next
  case (Some ex)
  then have "k \<in> sku ` set c" by (auto simp: find_Some_iff)
  moreover have "map sku (map (\<lambda>p. if sku p = k then p\<lparr>qty := qty p + 1\<rparr> else p) c) = map sku c"
    by (induction c) auto
  ultimately show ?thesis using Some by (simp add: add_line_def)
qed

lemma qty_of_map_inc:
  "qty_of j (map (\<lambda>p. if sku p = k then p\<lparr>qty := qty p + 1\<rparr> else p) c) =
     qty_of j c + (if j = k \<and> k \<in> sku ` set c then 1 else 0)"
  by (induction c) (auto simp: qty_of_def)

lemma qty_of_append_new:
  "k \<notin> sku ` set c \<Longrightarrow> sku new = k \<Longrightarrow>
     qty_of j (c @ [new]) = qty_of j c + (if j = k then qty new else 0)"
  by (induction c) (auto simp: qty_of_def)

lemma add_line_qty_of:
  assumes "sku new = k" "qty new = 1"
  shows "qty_of j (add_line k new c) = qty_of j c + (if j = k then 1 else 0)"
proof (cases "find (\<lambda>p. sku p = k) c")
  case None
  then have nk: "k \<notin> sku ` set c" by (auto simp: find_None_iff)
  have "add_line k new c = c @ [new]"
    using None by (simp add: add_line_def)
  then show ?thesis
    using qty_of_append_new [OF nk assms(1), of j] assms(2) by simp
next
  case (Some ex)
  then have k: "k \<in> sku ` set c" by (auto simp: find_Some_iff)
  have "add_line k new c = map (\<lambda>p. if sku p = k then p\<lparr>qty := qty p + 1\<rparr> else p) c"
    using Some by (simp add: add_line_def)
  then show ?thesis
    using qty_of_map_inc [of j k c] k by simp
qed

lemma addFlavor_add_line:
  "\<exists>new. sku new = target (AddFlavor f) \<and> qty new = 1 \<and>
     addFlavor f c = add_line (target (AddFlavor f)) new c"
proof -
  let ?k = "PRODUCT_id @ ''-'' @ f_id f"
  let ?new = "\<lparr>sku = ?k, flavorId = f_id f,
           name = PRODUCT_name @ '' '' @ [CHR 0xE2, CHR 0x80, CHR 0x94] @ '' '' @ f_name f,
           unitPrice = priceFor f, qty = 1, addons = Some []\<rparr>"
  have "addFlavor f c = add_line ?k ?new c"
    by (simp add: addFlavor_def add_line_def Let_def split: option.splits)
  then show ?thesis
    by (intro exI [of _ ?new]) simp
qed

lemma addDrink_add_line:
  assumes "addDrink i c = Inr c'"
  shows "\<exists>new. sku new = i \<and> qty new = 1 \<and> c' = add_line i new c"
proof -
  from assms obtain d where d: "find (\<lambda>x. d_id x = i) DRINKS = Some d"
    by (auto simp: addDrink_def split: option.splits)
  then have i: "d_id d = i" by (auto simp: find_Some_iff)
  let ?new = "\<lparr>sku = d_id d, flavorId = [], name = d_name d, unitPrice = d_price d,
                  qty = 1, addons = Some []\<rparr>"
  have "addDrink i c = Inr (add_line i ?new c)"
    using d i by (simp add: addDrink_def add_line_def split: option.splits)
  with assms i show ?thesis
    by (intro exI [of _ ?new]) simp
qed

lemma apply_add_line:
  assumes "is_add x" "apply_op x c = Inr c'"
  shows "\<exists>new. sku new = target x \<and> qty new = 1 \<and> c' = add_line (target x) new c"
proof (cases x)
  case (AddFlavor f)
  with assms addFlavor_add_line [of f c] show ?thesis by auto
next
  case (AddDrink i)
  with assms addDrink_add_line [of i c c'] show ?thesis by auto
qed (use assms in auto)

lemma run_adds:
  assumes "\<forall>x\<in>set ops. is_add x" "run_ops ops c = Inr c'"
  shows "set (map sku c') = set (map sku c) \<union> target ` set ops"
    and "distinct (map sku c) \<Longrightarrow> distinct (map sku c')"
    and "qty_of j c' = qty_of j c + int (length (filter (\<lambda>x. target x = j) ops))"
  using assms
proof (induction ops arbitrary: c)
  case Nil
  { case 1 then show ?case by simp }
  { case 2 then show ?case by simp }
  { case 3 then show ?case by simp }
next
  case (Cons x xs)
  { case 1
    then obtain c1 where c1: "apply_op x c = Inr c1" "run_ops xs c1 = Inr c'"
      by (auto split: sum.splits)
    with 1 obtain new where n: "sku new = target x" "qty new = 1" "c1 = add_line (target x) new c"
      using apply_add_line by fastforce
    have "set (map sku c1) = set (map sku c) \<union> {target x}"
      unfolding n(3) add_line_skus [OF n(1)] by auto
    with Cons.IH(1) [of c1] 1 c1 show ?case by auto }
  { case 2
    then obtain c1 where c1: "apply_op x c = Inr c1" "run_ops xs c1 = Inr c'"
      by (auto split: sum.splits)
    with 2 obtain new where n: "sku new = target x" "qty new = 1" "c1 = add_line (target x) new c"
      using apply_add_line by fastforce
    have "distinct (map sku c1)"
      using 2(1) unfolding n(3) add_line_skus [OF n(1)] by auto
    with Cons.IH(2) [of c1] 2 c1 show ?case by auto }
  { case 3
    then obtain c1 where c1: "apply_op x c = Inr c1" "run_ops xs c1 = Inr c'"
      by (auto split: sum.splits)
    with 3 obtain new where n: "sku new = target x" "qty new = 1" "c1 = add_line (target x) new c"
      using apply_add_line by fastforce
    have "qty_of j c1 = qty_of j c + (if j = target x then 1 else 0)"
      unfolding n(3) by (rule add_line_qty_of [OF n(1,2)])
    with Cons.IH(3) [of c1] 3 c1 show ?case by auto }
qed

lemma run_adds_total:
  assumes "\<forall>x\<in>set ops. is_add x" "\<forall>i. AddDrink i \<in> set ops \<longrightarrow> i \<in> d_id ` set DRINKS"
  shows "\<exists>c'. run_ops ops c = Inr c'"
  using assms
proof (induction ops arbitrary: c)
  case Nil
  then show ?case by simp
next
  case (Cons x xs)
  have "\<exists>c1. apply_op x c = Inr c1"
  proof (cases x)
    case (AddDrink i)
    with Cons.prems have "i \<in> d_id ` set DRINKS" by simp
    then have "find (\<lambda>x. d_id x = i) DRINKS \<noteq> None"
      by (auto simp: find_None_iff)
    with AddDrink show ?thesis
      by (auto simp: addDrink_def split: option.splits)
  qed auto
  then obtain c1 where "apply_op x c = Inr c1" ..
  with Cons.IH [of c1] Cons.prems show ?case by auto
qed

lemma qty_of_member:
  assumes "distinct (map sku c)" "i \<in> set c"
  shows "qty_of (sku i) c = qty i"
  using assms by (induction c) (auto simp: qty_of_def rev_image_eqI)

text \<open>
  C7. A run of \<^verbatim>\<open>addFlavor\<close> and \<^verbatim>\<open>addDrink\<close> calls from the empty cart ends (it
  can only stop on a drink id that is not in the catalog), and the cart it leaves has
  one line per sku the calls were aimed at, no sku twice, each line with \<open>qty\<close> equal
  to the number of calls aimed at its sku.
\<close>

theorem add_calls_one_line_per_sku:
  assumes "\<forall>x\<in>set ops. is_add x"
  shows "((\<forall>i. AddDrink i \<in> set ops \<longrightarrow> i \<in> d_id ` set DRINKS) \<longrightarrow>
           (\<exists>c. run_ops ops [] = Inr c)) \<and>
         (\<forall>c. run_ops ops [] = Inr c \<longrightarrow>
           distinct (map sku c) \<and> set (map sku c) = target ` set ops \<and>
           (\<forall>i\<in>set c. qty i = int (length (filter (\<lambda>x. target x = sku i) ops))))"
proof (intro conjI impI allI)
  assume "\<forall>i. AddDrink i \<in> set ops \<longrightarrow> i \<in> d_id ` set DRINKS"
  with assms show "\<exists>c. run_ops ops [] = Inr c" by (rule run_adds_total)
next
  fix c assume r: "run_ops ops [] = Inr c"
  show d: "distinct (map sku c)" using run_adds(2) [OF assms r] by simp
  show "set (map sku c) = target ` set ops" using run_adds(1) [OF assms r] by simp
  show "\<forall>i\<in>set c. qty i = int (length (filter (\<lambda>x. target x = sku i) ops))"
  proof
    fix i assume "i \<in> set c"
    with d have "qty i = qty_of (sku i) c" by (simp add: qty_of_member)
    also have "\<dots> = int (length (filter (\<lambda>x. target x = sku i) ops))"
      using run_adds(3) [OF assms r, of "sku i"] by (simp add: qty_of_def)
    finally show "qty i = int (length (filter (\<lambda>x. target x = sku i) ops))" .
  qed
qed

theorem add_calls_one_line_per_sku_witness:
  "(\<exists>c. run_ops ex_adds [] = Inr c) \<and>
   map sku (projr (run_ops ex_adds [])) = [''souffle-van'', ''drink-hojicha''] \<and>
   map qty (projr (run_ops ex_adds [])) = [2, 1]"
proof -
  have h: "\<forall>x\<in>set ex_adds. is_add x"
    by (simp add: ex_adds_def)
  have d: "\<forall>i. AddDrink i \<in> set ex_adds \<longrightarrow> i \<in> d_id ` set DRINKS"
    by (simp add: ex_adds_def DRINKS_def)
  show ?thesis
    using add_calls_one_line_per_sku [OF h] d
    by (simp add: ex_adds_def addFlavor_def addDrink_def DRINKS_def mk_flavor_def
        PRODUCT_id_def)
qed

lemma upd_first_set:
  assumes "find P xs = Some ex"
  shows "set (upd_first P f xs) \<subseteq> insert (f ex) (set xs)"
  using assms by (induction xs) (auto split: if_splits)

lemma capped_addDrink:
  assumes "capped c" "addDrink i c = Inr c'"
  shows "capped c'"
proof -
  from assms(2) obtain d where d: "find (\<lambda>x. d_id x = i) DRINKS = Some d"
    by (auto simp: addDrink_def split: option.splits)
  show ?thesis
  proof (cases "find (\<lambda>p. sku p = d_id d) c")
    case None
    with assms(2) d have "c' = c @ [\<lparr>sku = d_id d, flavorId = [], name = d_name d,
        unitPrice = d_price d, qty = 1, addons = Some []\<rparr>]"
      by (simp add: addDrink_def)
    with assms(1) show ?thesis
      by (auto simp: capped_def addons_of_def)
  next
    case (Some ex)
    with assms(2) d have "c' = map (\<lambda>p. if sku p = d_id d then p\<lparr>qty := qty p + 1\<rparr> else p) c"
      by (simp add: addDrink_def)
    with assms(1) show ?thesis
      by (fastforce simp: capped_def addons_of_def)
  qed
qed

lemma addCheeseToDrink_lines:
  "addCheeseToDrink k c = map (\<lambda>p. if sku p \<noteq> k then p else drink_cheese_line p) c"
  by (simp add: addCheeseToDrink_def drink_cheese_line_def)

lemma capped_cheese_item:
  assumes "1 \<le> qty p" "\<forall>a\<in>set (addons_of p). a_qty a \<le> qty p"
  shows "1 \<le> qty (drink_cheese_line p) \<and>
    (\<forall>a\<in>set (addons_of (drink_cheese_line p)). a_qty a \<le> qty (drink_cheese_line p))"
proof (cases "find (\<lambda>a. a_id a = CHEESE_id) (addons_of p)")
  case None
  then have "drink_cheese_line p = p\<lparr>addons := Some (addons_of p @ [CHEESE_addon])\<rparr>"
    by (simp add: drink_cheese_line_def addons_of_def)
  with assms show ?thesis
    by (auto simp: addons_of_def CHEESE_addon_def)
next
  case (Some ex)
  show ?thesis
  proof (cases "a_qty ex < qty p")
    case True
    let ?f = "\<lambda>a. a\<lparr>a_qty := a_qty a + 1\<rparr>"
    have p': "drink_cheese_line p =
        p\<lparr>addons := Some (upd_first (\<lambda>a. a_id a = CHEESE_id) ?f (addons_of p))\<rparr>"
      using Some True by (simp add: drink_cheese_line_def addons_of_def)
    have "set (upd_first (\<lambda>a. a_id a = CHEESE_id) ?f (addons_of p))
        \<subseteq> insert (?f ex) (set (addons_of p))"
      using Some by (rule upd_first_set)
    moreover have "a_qty (?f ex) \<le> qty p" using True by simp
    ultimately have
      "\<forall>a\<in>set (upd_first (\<lambda>a. a_id a = CHEESE_id) ?f (addons_of p)). a_qty a \<le> qty p"
      using assms(2) by blast
    with assms(1) show ?thesis
      unfolding p' by (simp add: addons_of_def)
  next
    case False
    then have "drink_cheese_line p = p\<lparr>addons := Some (addons_of p)\<rparr>"
      using Some by (simp add: drink_cheese_line_def addons_of_def)
    with assms show ?thesis
      by (simp add: addons_of_def)
  qed
qed

lemma capped_addCheeseToDrink:
  assumes "capped c"
  shows "capped (addCheeseToDrink k c)"
  unfolding capped_def addCheeseToDrink_lines
proof
  fix q
  assume "q \<in> set (map (\<lambda>p. if sku p \<noteq> k then p else drink_cheese_line p) c)"
  then obtain p where p: "p \<in> set c"
    and q: "q = (if sku p \<noteq> k then p else drink_cheese_line p)"
    by auto
  from p assms have ok: "1 \<le> qty p" "\<forall>a\<in>set (addons_of p). a_qty a \<le> qty p"
    by (auto simp: capped_def)
  show "1 \<le> qty q \<and> (\<forall>a\<in>set (addons_of q). a_qty a \<le> qty q)"
  proof (cases "sku p = k")
    case True
    then show ?thesis unfolding q using capped_cheese_item [OF ok] by simp
  next
    case False
    then show ?thesis unfolding q using ok by simp
  qed
qed

lemma capped_run:
  assumes "\<forall>x\<in>set ops. is_drink_op x" "capped c" "run_ops ops c = Inr c'"
  shows "capped c'"
  using assms
proof (induction ops arbitrary: c)
  case Nil
  then show ?case by simp
next
  case (Cons x xs)
  from Cons.prems obtain c1 where c1: "apply_op x c = Inr c1" "run_ops xs c1 = Inr c'"
    by (auto split: sum.splits)
  have "capped c1"
  proof (cases x)
    case (AddDrink i)
    with c1 Cons.prems(2) show ?thesis by (auto intro: capped_addDrink)
  next
    case (AddCheeseToDrink k)
    with c1 Cons.prems(2) show ?thesis by (auto intro: capped_addCheeseToDrink)
  qed (use Cons.prems in auto)
  with Cons.IH [of c1] Cons.prems c1 show ?case by simp
qed

lemma run_drink_ops_total:
  assumes "\<forall>x\<in>set ops. is_drink_op x" "\<forall>i. AddDrink i \<in> set ops \<longrightarrow> i \<in> d_id ` set DRINKS"
  shows "\<exists>c'. run_ops ops c = Inr c'"
  using assms
proof (induction ops arbitrary: c)
  case Nil
  then show ?case by simp
next
  case (Cons x xs)
  have "\<exists>c1. apply_op x c = Inr c1"
  proof (cases x)
    case (AddDrink i)
    with Cons.prems have "i \<in> d_id ` set DRINKS" by simp
    then have "find (\<lambda>x. d_id x = i) DRINKS \<noteq> None"
      by (auto simp: find_None_iff)
    with AddDrink show ?thesis
      by (auto simp: addDrink_def split: option.splits)
  qed auto
  then obtain c1 where "apply_op x c = Inr c1" ..
  with Cons.IH [of c1] Cons.prems show ?case by auto
qed

text \<open>
  C3. A run of \<^verbatim>\<open>addDrink\<close> and \<^verbatim>\<open>addCheeseToDrink\<close> calls from the empty cart, in any
  order, ends (it can only stop on a drink id that is not in the catalog), and in the
  cart it leaves no add-on of a line (the cheese topping is the only add-on there is)
  has a quantity above the \<open>qty\<close> of the line.
\<close>

theorem drink_cheese_never_exceeds_qty:
  assumes "\<forall>x\<in>set ops. is_drink_op x"
  shows "((\<forall>i. AddDrink i \<in> set ops \<longrightarrow> i \<in> d_id ` set DRINKS) \<longrightarrow>
           (\<exists>c. run_ops ops [] = Inr c)) \<and>
         (\<forall>c. run_ops ops [] = Inr c \<longrightarrow>
           (\<forall>p\<in>set c. \<forall>a\<in>set (addons_of p). a_qty a \<le> qty p))"
proof (intro conjI impI allI)
  assume "\<forall>i. AddDrink i \<in> set ops \<longrightarrow> i \<in> d_id ` set DRINKS"
  with assms show "\<exists>c. run_ops ops [] = Inr c" by (rule run_drink_ops_total)
next
  fix c assume "run_ops ops [] = Inr c"
  with assms have "capped c"
    by (intro capped_run [of ops "[]" c]) (simp_all add: capped_def)
  then show "\<forall>p\<in>set c. \<forall>a\<in>set (addons_of p). a_qty a \<le> qty p"
    by (simp add: capped_def)
qed

theorem drink_cheese_never_exceeds_qty_witness:
  "(\<exists>c. run_ops ex_drink_ops [] = Inr c) \<and>
   map qty (projr (run_ops ex_drink_ops [])) = [2] \<and>
   map (\<lambda>p. map a_qty (addons_of p)) (projr (run_ops ex_drink_ops [])) = [[2]]"
proof -
  have h: "\<forall>x\<in>set ex_drink_ops. is_drink_op x"
    by (simp add: ex_drink_ops_def)
  have d: "\<forall>i. AddDrink i \<in> set ex_drink_ops \<longrightarrow> i \<in> d_id ` set DRINKS"
    by (simp add: ex_drink_ops_def DRINKS_def)
  show ?thesis
    using drink_cheese_never_exceeds_qty [OF h] d
    by (simp add: ex_drink_ops_def addCheeseToDrink_def addDrink_def DRINKS_def addons_of_def
        CHEESE_addon_def)
qed

text \<open>
  C8. \<^verbatim>\<open>dec\<close> on the sku of a line item whose \<open>qty\<close> is 1 removes the line item: the
  cart that results is the old one without the items of that sku, so no item of that
  sku is left. \<^verbatim>\<open>dec\<close> on a sku that no line item of the cart has returns the cart as
  it was.
\<close>

theorem dec_last_unit_or_absent:
  "(find (\<lambda>p. sku p = k) c = Some x \<and> qty x = 1 \<longrightarrow>
      dec k c = filter (\<lambda>p. sku p \<noteq> k) c \<and> k \<notin> sku ` set (dec k c)) \<and>
   (k \<notin> sku ` set c \<longrightarrow> dec k c = c)"
proof (intro conjI impI)
  assume h: "find (\<lambda>p. sku p = k) c = Some x \<and> qty x = 1"
  then show eq: "dec k c = filter (\<lambda>p. sku p \<noteq> k) c"
    by (simp add: dec_def)
  show "k \<notin> sku ` set (dec k c)"
    unfolding eq by auto
next
  assume "k \<notin> sku ` set c"
  then have "find (\<lambda>p. sku p = k) c = None"
    by (auto simp: find_None_iff)
  then show "dec k c = c"
    by (simp add: dec_def)
qed

theorem dec_last_unit_or_absent_witness:
  "dec ''a'' [ex_item ''a'' 1, ex_item ''b'' 2] = [ex_item ''b'' 2] \<and>
   dec ''z'' [ex_item ''a'' 1, ex_item ''b'' 2] = [ex_item ''a'' 1, ex_item ''b'' 2]"
  using dec_last_unit_or_absent [of "''a''" "[ex_item ''a'' 1, ex_item ''b'' 2]" "ex_item ''a'' 1"]
    dec_last_unit_or_absent [of "''z''" "[ex_item ''a'' 1, ex_item ''b'' 2]" "ex_item ''a'' 1"]
  by (simp add: ex_item_def)

section \<open>Properties of the order store\<close>

lemma nextQueueNumber_eq:
  "nextQueueNumber y ls =
    (queue_number (stored_count y ls + 1), ls\<lparr>ls_seq := Some (y, stored_count y ls + 1)\<rparr>)"
  by (auto simp: nextQueueNumber_def queue_number_def stored_count_def split: option.splits)

lemma issue_eq:
  "issue y k ls = map (\<lambda>i. queue_number (stored_count y ls + 1 + i)) [0..<k]"
proof (induction k arbitrary: ls)
  case 0
  then show ?case by simp
next
  case (Suc k)
  let ?ls = "ls\<lparr>ls_seq := Some (y, stored_count y ls + 1)\<rparr>"
  have sc: "stored_count y ?ls = stored_count y ls + 1"
    by (simp add: stored_count_def)
  have "issue y (Suc k) ls = queue_number (stored_count y ls + 1) # issue y k ?ls"
    by (simp add: nextQueueNumber_eq)
  also have "issue y k ?ls = map (\<lambda>i. queue_number (stored_count y ls + 1 + Suc i)) [0..<k]"
    unfolding Suc.IH sc by simp
  finally show ?case
    unfolding map_upt_Suc by simp
qed

lemma digit_value: "d < 10 \<Longrightarrow> of_char (digit_char d) - 48 = (d::nat)"
  by (simp add: digit_char_def)

lemma counter_String_nat:
  "foldl (\<lambda>a c. 10 * a + (of_char c - 48)) 0 (String_nat n) = n"
proof (induction n rule: String_nat.induct)
  case (1 n)
  show ?case
  proof (cases "n < 10")
    case True
    then show ?thesis by (simp add: String_nat.simps [of n] digit_value)
  next
    case False
    then have "foldl (\<lambda>a c. 10 * a + (of_char c - 48)) 0 (String_nat n) =
        10 * (n div 10) + (of_char (digit_char (n mod 10)) - 48)"
      using 1 by (simp add: String_nat.simps [of n])
    also have "\<dots> = 10 * (n div 10) + n mod 10"
      by (simp add: digit_value)
    finally show ?thesis by simp
  qed
qed

lemma counter_zeros:
  "foldl (\<lambda>a c. 10 * a + (of_char c - 48)) (0::nat) (replicate j (CHR ''0'')) = 0"
  by (induction j) simp_all

lemma queue_counter_number: "queue_counter (queue_number n) = n"
  by (simp add: queue_counter_def queue_number_def padStart_def counter_zeros counter_String_nat)

lemma String_nat_digits: "\<forall>c\<in>set (String_nat n). c \<in> digit_char ` {..<10}"
proof (induction n rule: String_nat.induct)
  case (1 n)
  show ?case
  proof (cases "n < 10")
    case True
    then show ?thesis by (simp add: String_nat.simps [of n])
  next
    case False
    with 1 show ?thesis by (simp add: String_nat.simps [of n])
  qed
qed

lemma String_nat_length: "n < 1000 \<Longrightarrow> length (String_nat n) \<le> 3"
  by (simp add: String_nat.simps [of n] String_nat.simps [of "n div 10"]
      String_nat.simps [of "n div 10 div 10"])

text \<open>
  C9. The first queue number issued on a storage without a counter is \<open>Q-001\<close>, and so
  is the first one issued when the observed year differs from the stored one. Calls
  in a row that observe the stored year \<open>y\<close> issue the prefix \<open>Q-\<close> and the counter
  values that follow the stored one, each padded with zeros to three digits (a counter
  below 1000 is exactly three digits), so the counters issued in one year increase
  strictly.
\<close>

theorem queue_numbers_in_a_year:
  "(ls_seq ls = None \<longrightarrow> fst (nextQueueNumber y ls) = ''Q-001'') \<and>
   (\<forall>y0 n. ls_seq ls = Some (y0, n) \<and> y0 \<noteq> y \<longrightarrow> fst (nextQueueNumber y ls) = ''Q-001'') \<and>
   (\<forall>n. ls_seq ls = Some (y, n) \<longrightarrow>
      issue y k ls = map (\<lambda>i. ''Q-'' @ padStart 3 (CHR ''0'') (String_nat (n + 1 + i))) [0..<k]) \<and>
   sorted_wrt (<) (map queue_counter (issue y k ls)) \<and>
   (\<forall>n < 1000. length (padStart 3 (CHR ''0'') (String_nat n)) = 3 \<and>
      (\<forall>c\<in>set (padStart 3 (CHR ''0'') (String_nat n)). c \<in> digit_char ` {..<10}))"
proof (intro conjI allI impI)
  have one: "queue_number 1 = ''Q-001''"
    by code_simp
  show "fst (nextQueueNumber y ls) = ''Q-001''" if "ls_seq ls = None"
    using that one by (simp add: nextQueueNumber_eq stored_count_def)
  show "fst (nextQueueNumber y ls) = ''Q-001''" if "ls_seq ls = Some (y0, n) \<and> y0 \<noteq> y" for y0 n
    using that one by (simp add: nextQueueNumber_eq stored_count_def)
  show "issue y k ls = map (\<lambda>i. ''Q-'' @ padStart 3 (CHR ''0'') (String_nat (n + 1 + i))) [0..<k]"
    if "ls_seq ls = Some (y, n)" for n
    using that by (simp add: issue_eq stored_count_def queue_number_def)
  have "map queue_counter (issue y k ls) = map (\<lambda>i. stored_count y ls + 1 + i) [0..<k]"
    by (simp add: issue_eq queue_counter_number comp_def)
  then show "sorted_wrt (<) (map queue_counter (issue y k ls))"
    by (simp add: sorted_wrt_map)
  fix n :: nat assume n: "n < 1000"
  show "length (padStart 3 (CHR ''0'') (String_nat n)) = 3"
    using String_nat_length [OF n] by (simp add: padStart_def)
  have "CHR ''0'' = digit_char 0" by code_simp
  moreover have "digit_char 0 \<in> digit_char ` {..<10}" by simp
  ultimately have "CHR ''0'' \<in> digit_char ` {..<10}" by simp
  then show "\<forall>c\<in>set (padStart 3 (CHR ''0'') (String_nat n)). c \<in> digit_char ` {..<10}"
    using String_nat_digits [of n] by (auto simp: padStart_def)
qed

theorem queue_numbers_in_a_year_witness:
  "fst (nextQueueNumber 2025 ex_storage) = ''Q-001'' \<and>
   fst (nextQueueNumber 2026 (ex_storage\<lparr>ls_seq := Some (2025, 41)\<rparr>)) = ''Q-001'' \<and>
   issue 2025 3 (ex_storage\<lparr>ls_seq := Some (2025, 8)\<rparr>) = [''Q-009'', ''Q-010'', ''Q-011''] \<and>
   map queue_counter (issue 2025 3 (ex_storage\<lparr>ls_seq := Some (2025, 8)\<rparr>)) = [9, 10, 11]"
proof -
  have a: "ls_seq ex_storage = None"
    by (simp add: ex_storage_def)
  have b: "ls_seq (ex_storage\<lparr>ls_seq := Some (2025, 41)\<rparr>) = Some (2025, 41) \<and> (2025::int) \<noteq> 2026"
    by simp
  have c: "ls_seq (ex_storage\<lparr>ls_seq := Some (2025, 8)\<rparr>) = Some (2025, 8)"
    by simp
  have d: "map (\<lambda>i. ''Q-'' @ padStart 3 (CHR ''0'') (String_nat (8 + 1 + i))) [0..<3] =
      [''Q-009'', ''Q-010'', ''Q-011'']"
    by code_simp
  have e: "map queue_counter [''Q-009'', ''Q-010'', ''Q-011''] = [9, 10, 11]"
    by code_simp
  have 1: "fst (nextQueueNumber 2025 ex_storage) = ''Q-001''"
    using queue_numbers_in_a_year [of ex_storage 2025 0] a by simp
  have 2: "fst (nextQueueNumber 2026 (ex_storage\<lparr>ls_seq := Some (2025, 41)\<rparr>)) = ''Q-001''"
    using queue_numbers_in_a_year [of "ex_storage\<lparr>ls_seq := Some (2025, 41)\<rparr>" 2026 0] b
    by simp
  have "issue 2025 3 (ex_storage\<lparr>ls_seq := Some (2025, 8)\<rparr>) =
      map (\<lambda>i. ''Q-'' @ padStart 3 (CHR ''0'') (String_nat (8 + 1 + i))) [0..<3]"
    using queue_numbers_in_a_year [of "ex_storage\<lparr>ls_seq := Some (2025, 8)\<rparr>" 2025 3] c
    by simp
  then have 3: "issue 2025 3 (ex_storage\<lparr>ls_seq := Some (2025, 8)\<rparr>) =
      [''Q-009'', ''Q-010'', ''Q-011'']"
    using d by (rule trans)
  have 4: "map queue_counter (issue 2025 3 (ex_storage\<lparr>ls_seq := Some (2025, 8)\<rparr>)) =
      [9, 10, 11]"
    unfolding 3 by (rule e)
  from 1 2 3 4 show ?thesis by (intro conjI)
qed

lemma those_map_Some: "those (map Some xs) = Some xs"
  by (induction xs) simp_all

lemma map_enumerate_nth:
  "i < length xs \<Longrightarrow> map (\<lambda>(j, r). f j r) (enumerate n xs) ! i = f (n + i) (xs ! i)"
  by (simp add: nth_enumerate_eq)

lemma getAllOrders_records:
  assumes "ls_orders ls = Records (map Some rs)"
  shows "getAllOrders clk ls = map (\<lambda>(i, r). normalize_order (clk i) r) (enumerate 0 rs)"
  using assms by (simp add: getAllOrders_def those_map_Some)

lemma normalize_cases:
  "normalize s = New \<or> (\<exists>t\<in>set allowed. s = Some (JStr (status_name t)) \<and> normalize s = t)"
proof (cases s)
  case None
  then show ?thesis by (simp add: normalize_def)
next
  case (Some v)
  show ?thesis
  proof (cases v)
    case (JStr x)
    show ?thesis
    proof (cases "find (\<lambda>t. status_name t = x) allowed")
      case None
      with Some JStr show ?thesis by (simp add: normalize_def)
    next
      case (Some t)
      then have "t \<in> set allowed" "status_name t = x"
        by (auto simp: find_Some_iff)
      with Some \<open>s = Some v\<close> JStr show ?thesis
        by (auto simp: normalize_def)
    qed
  qed (use Some in \<open>simp_all add: normalize_def\<close>)
qed

lemma normalize_name: "normalize (Some (JStr (status_name t))) = t"
  by (cases t) (simp_all add: normalize_def allowed_def)

lemma normalize_other:
  assumes "\<forall>t\<in>set allowed. s \<noteq> Some (JStr (status_name t))"
  shows "normalize s = New"
  using normalize_cases [of s] assms by auto

lemma status_name_allowed:
  "status_name t \<in> set [''New'', ''Paid'', ''Preparing'', ''Ready'', ''Done'', ''Cancelled'']"
  by (cases t) simp_all

text \<open>
  C10. Every order that \<^verbatim>\<open>getAllOrders\<close> returns has one of the six status names.
  When the stored text is an array of records, the read returns one order per record,
  in order: a record whose \<^verbatim>\<open>status\<close> is one of the six names keeps it, a record with
  any other \<^verbatim>\<open>status\<close> value, or none, is returned as \<open>New\<close>, and a missing
  \<^verbatim>\<open>total\<close>, \<^verbatim>\<open>createdAt\<close>, \<^verbatim>\<open>pickupName\<close> or \<^verbatim>\<open>marketingOptIn\<close> is read as 0, the
  current time, the empty string and \<open>False\<close>.
\<close>

theorem getAllOrders_normalizes:
  "(\<forall>x\<in>set (getAllOrders clk ls).
      status_name (status x) \<in>
        set [''New'', ''Paid'', ''Preparing'', ''Ready'', ''Done'', ''Cancelled'']) \<and>
   (\<forall>rs. ls_orders ls = Records (map Some rs) \<longrightarrow>
      length (getAllOrders clk ls) = length rs \<and>
      (\<forall>i<length rs.
         (\<forall>t\<in>set allowed. r_status (rs ! i) = Some (JStr (status_name t)) \<longrightarrow>
            status (getAllOrders clk ls ! i) = t) \<and>
         ((\<forall>t\<in>set allowed. r_status (rs ! i) \<noteq> Some (JStr (status_name t))) \<longrightarrow>
            status (getAllOrders clk ls ! i) = New) \<and>
         (r_total (rs ! i) = None \<longrightarrow> total (getAllOrders clk ls ! i) = 0) \<and>
         (r_createdAt (rs ! i) = None \<longrightarrow> createdAt (getAllOrders clk ls ! i) = clk i) \<and>
         (r_pickupName (rs ! i) = None \<longrightarrow> pickupName (getAllOrders clk ls ! i) = []) \<and>
         (r_marketingOptIn (rs ! i) = None \<longrightarrow> \<not> marketingOptIn (getAllOrders clk ls ! i))))"
proof (intro conjI allI impI ballI)
  fix x assume "x \<in> set (getAllOrders clk ls)"
  show "status_name (status x) \<in>
      set [''New'', ''Paid'', ''Preparing'', ''Ready'', ''Done'', ''Cancelled'']"
    by (rule status_name_allowed)
next
  fix rs assume rs: "ls_orders ls = Records (map Some rs)"
  show "length (getAllOrders clk ls) = length rs"
    by (simp add: getAllOrders_records [OF rs])
  fix i assume i: "i < length rs"
  have nth: "getAllOrders clk ls ! i = normalize_order (clk i) (rs ! i)"
    unfolding getAllOrders_records [OF rs] using map_enumerate_nth [OF i, of _ 0] by simp
  show "status (getAllOrders clk ls ! i) = t"
    if "t \<in> set allowed" "r_status (rs ! i) = Some (JStr (status_name t))" for t
    unfolding nth using that by (simp add: normalize_order_def normalize_name)
  show "status (getAllOrders clk ls ! i) = New"
    if "\<forall>t\<in>set allowed. r_status (rs ! i) \<noteq> Some (JStr (status_name t))"
    unfolding nth using normalize_other [OF that] by (simp add: normalize_order_def)
  show "total (getAllOrders clk ls ! i) = 0" if "r_total (rs ! i) = None"
    unfolding nth using that by (simp add: normalize_order_def)
  show "createdAt (getAllOrders clk ls ! i) = clk i" if "r_createdAt (rs ! i) = None"
    unfolding nth using that by (simp add: normalize_order_def)
  show "pickupName (getAllOrders clk ls ! i) = []" if "r_pickupName (rs ! i) = None"
    unfolding nth using that by (simp add: normalize_order_def)
  show "\<not> marketingOptIn (getAllOrders clk ls ! i)" if "r_marketingOptIn (rs ! i) = None"
    unfolding nth using that by (simp add: normalize_order_def)
qed

theorem getAllOrders_normalizes_witness:
  "map status (getAllOrders (\<lambda>i. 5000 + int i) ex_raw_storage) = [New, Ready] \<and>
   map total (getAllOrders (\<lambda>i. 5000 + int i) ex_raw_storage) = [0, 15] \<and>
   map createdAt (getAllOrders (\<lambda>i. 5000 + int i) ex_raw_storage) = [5000, 1000] \<and>
   map pickupName (getAllOrders (\<lambda>i. 5000 + int i) ex_raw_storage) =
     [[], map of_char ''Aisyah''] \<and>
   map marketingOptIn (getAllOrders (\<lambda>i. 5000 + int i) ex_raw_storage) = [False, True]"
  using getAllOrders_normalizes [of "\<lambda>i. 5000 + int i" ex_raw_storage]
  by (simp add: ex_raw_storage_def empty_record_def getAllOrders_def normalize_order_def
      normalize_def allowed_def)

lemma normalize_order_raw_of:
  "expiresAt x \<noteq> Some 0 \<Longrightarrow> normalize_order now (raw_of x) = x"
  by (cases "expiresAt x") (simp_all add: normalize_order_def raw_of_def normalize_name)

lemma map_enumerate_const:
  "(\<And>j r. r \<in> set rs \<Longrightarrow> f j r = g r) \<Longrightarrow> map (\<lambda>(j, r). f j r) (enumerate n rs) = map g rs"
  by (induction rs arbitrary: n) simp_all

lemma getAllOrders_saveAllOrders:
  assumes "\<forall>x\<in>set os. expiresAt x \<noteq> Some 0"
  shows "getAllOrders clk (saveAllOrders os ls) = os"
proof -
  have "getAllOrders clk (saveAllOrders os ls) =
      map (\<lambda>(i, r). normalize_order (clk i) r) (enumerate 0 (map raw_of os))"
    using those_map_Some [of "map raw_of os"]
    by (simp add: getAllOrders_def saveAllOrders_def comp_def)
  also have "\<dots> = map (\<lambda>r. normalize_order 0 r) (map raw_of os)"
  proof (rule map_enumerate_const)
    fix j r assume "r \<in> set (map raw_of os)"
    then obtain x where "x \<in> set os" "r = raw_of x" by auto
    with assms show "normalize_order (clk j) r = normalize_order 0 r"
      by (simp add: normalize_order_raw_of)
  qed
  also have "\<dots> = os"
    using assms by (simp add: normalize_order_raw_of map_idI)
  finally show ?thesis .
qed

lemma getAllOrders_no_zero: "\<forall>x\<in>set (getAllOrders clk ls). expiresAt x \<noteq> Some 0"
proof -
  have "expiresAt (normalize_order now r) \<noteq> Some 0" for now r
    by (simp add: normalize_order_def split: option.splits)
  then show ?thesis
    by (auto simp: getAllOrders_def in_set_enumerate_eq split: stored.splits option.splits)
qed

lemma overdue_clock:
  "map (overdue now) (getAllOrders clk ls) = map (overdue now) (getAllOrders clk' ls)"
proof -
  have "overdue now (normalize_order a r) = overdue now (normalize_order b r)" for a b r
    by (simp add: overdue_def normalize_order_def)
  then have "map (overdue now) (map (\<lambda>(i, r). normalize_order (clk i) r) (enumerate n xs)) =
      map (overdue now) (map (\<lambda>(i, r). normalize_order (clk' i) r) (enumerate n xs))" for xs n
    by (induction xs arbitrary: n) auto
  then show ?thesis
    by (simp add: getAllOrders_def split: stored.splits option.splits)
qed

lemma sweep_view:
  "getAllOrders clk (snd (sweep now clk st ls)) = cancel_overdue now (getAllOrders clk ls)"
proof -
  let ?cur = "getAllOrders clk ls"
  let ?next = "map (\<lambda>x. if overdue now x then x\<lparr>status := Cancelled\<rparr> else x) ?cur"
  have nz: "\<forall>x\<in>set ?cur. expiresAt x \<noteq> Some 0" by (rule getAllOrders_no_zero)
  have od: "overdue now x = (status x = New \<and> (case expiresAt x of Some t \<Rightarrow> t < now | None \<Rightarrow> False))"
    if "x \<in> set ?cur" for x
    using nz that by (auto simp: overdue_def split: option.splits)
  have nx: "?next = cancel_overdue now ?cur"
    unfolding cancel_overdue_def by (rule map_cong) (simp_all add: od)
  show ?thesis
  proof (cases "list_ex (overdue now) ?cur")
    case True
    have "\<forall>x\<in>set ?next. expiresAt x \<noteq> Some 0" using nz by auto
    then have "getAllOrders clk (saveAllOrders ?next ls) = ?next"
      by (rule getAllOrders_saveAllOrders)
    with True nx show ?thesis by (simp add: sweep_def Let_def)
  next
    case False
    then have "?next = ?cur" by (simp add: list_ex_iff map_idI)
    with False nx show ?thesis by (simp add: sweep_def Let_def)
  qed
qed

lemma sweep_idem:
  "sweep now clk' (fst (sweep now clk st ls)) (snd (sweep now clk st ls)) = sweep now clk st ls"
proof -
  let ?cur = "getAllOrders clk ls"
  let ?next = "map (\<lambda>x. if overdue now x then x\<lparr>status := Cancelled\<rparr> else x) ?cur"
  show ?thesis
  proof (cases "list_ex (overdue now) ?cur")
    case True
    have nz: "\<forall>x\<in>set ?next. expiresAt x \<noteq> Some 0" using getAllOrders_no_zero [of clk ls] by auto
    have rt: "getAllOrders clk' (saveAllOrders ?next ls) = ?next"
      using nz by (rule getAllOrders_saveAllOrders)
    have "\<not> list_ex (overdue now) ?next"
      by (auto simp: list_ex_iff overdue_def)
    with True rt show ?thesis by (simp add: sweep_def Let_def)
  next
    case False
    have "list_ex (overdue now) xs = (True \<in> set (map (overdue now) xs))" for xs
      by (auto simp: list_ex_iff)
    with False have "\<not> list_ex (overdue now) (getAllOrders clk' ls)"
      using overdue_clock [of now clk ls clk'] by simp
    with False show ?thesis by (simp add: sweep_def Let_def)
  qed
qed

text \<open>
  C4. The sweep at time \<open>now\<close> leaves a storage that reads as the old collection with
  the \<open>New\<close> orders whose \<open>expiresAt\<close> is earlier than \<open>now\<close> turned to \<open>Cancelled\<close> and
  every other order, and every other field, as before; the queue counter is not
  touched; and a second sweep at the same time, whatever its clock readings, changes
  neither the React state nor the storage.
\<close>

theorem sweep_cancels_overdue_idempotent:
  "getAllOrders clk (snd (sweep now clk st ls)) = cancel_overdue now (getAllOrders clk ls) \<and>
   ls_seq (snd (sweep now clk st ls)) = ls_seq ls \<and>
   sweep now clk' (fst (sweep now clk st ls)) (snd (sweep now clk st ls)) = sweep now clk st ls"
proof (intro conjI)
  show "getAllOrders clk (snd (sweep now clk st ls)) = cancel_overdue now (getAllOrders clk ls)"
    by (rule sweep_view)
  show "ls_seq (snd (sweep now clk st ls)) = ls_seq ls"
    by (simp add: sweep_def Let_def saveAllOrders_def)
  show "sweep now clk' (fst (sweep now clk st ls)) (snd (sweep now clk st ls)) = sweep now clk st ls"
    by (rule sweep_idem)
qed

theorem sweep_cancels_overdue_idempotent_witness:
  "map status (getAllOrders (\<lambda>i. 0) (snd (sweep 602000 (\<lambda>i. 0) ex_app ex_new_storage))) =
     [Cancelled] \<and>
   map status (getAllOrders (\<lambda>i. 0) (snd (sweep 601000 (\<lambda>i. 0) ex_app ex_new_storage))) =
     [New] \<and>
   sweep 602000 (\<lambda>i. 0) (fst (sweep 602000 (\<lambda>i. 0) ex_app ex_new_storage))
     (snd (sweep 602000 (\<lambda>i. 0) ex_app ex_new_storage)) =
     sweep 602000 (\<lambda>i. 0) ex_app ex_new_storage"
proof -
  have b: "getAllOrders (\<lambda>i. 0) ex_new_storage = [ex_new]"
    unfolding ex_new_storage_def
    by (rule getAllOrders_saveAllOrders) (simp add: ex_new_def ex_done_def)
  show ?thesis
    using sweep_cancels_overdue_idempotent [of "\<lambda>i. 0" 602000 ex_app ex_new_storage "\<lambda>i. 0"]
      sweep_cancels_overdue_idempotent [of "\<lambda>i. 0" 601000 ex_app ex_new_storage "\<lambda>i. 0"]
    by (simp add: b cancel_overdue_def ex_new_def ex_done_def)
qed

section \<open>Properties of submission\<close>

lemma trim_blank:
  assumes "\<forall>c\<in>set s. is_ws c"
  shows "trim s = []"
proof -
  from assms have d: "dropWhile is_ws s = []" by (induction s) auto
  show ?thesis unfolding trim_def d by simp
qed

text \<open>
  C6. \<^verbatim>\<open>submitOrder\<close> with an empty cart, or with a pickup name that is empty or made
  of white space only, returns the React state and the storage as they were: no order
  is placed, nothing is written, and the stored orders and the queue counter are the
  old ones. The blank name raises the alert, the empty cart nothing.
\<close>

theorem submitOrder_rejects_invalid:
  assumes "cart st = [] \<or> (\<forall>c\<in>set (pickupName_s st). is_ws c)"
  shows "submitOrder e st ls =
    ((if cart st = [] then None else Some ''Please enter a pickup name.''), st, ls)"
proof (cases "cart st = []")
  case True
  then show ?thesis by (simp add: submitOrder_def)
next
  case False
  with assms have "trim (pickupName_s st) = []" by (simp add: trim_blank)
  with False show ?thesis by (simp add: submitOrder_def)
qed

theorem submitOrder_rejects_invalid_witness:
  "submitOrder (ex_env 1000 1000) (ex_app\<lparr>cart := []\<rparr>) ex_storage =
     (None, ex_app\<lparr>cart := []\<rparr>, ex_storage) \<and>
   submitOrder (ex_env 1000 1000) (ex_app\<lparr>pickupName_s := [0x20, 0x09, 0xA0]\<rparr>) ex_storage =
     (Some ''Please enter a pickup name.'', ex_app\<lparr>pickupName_s := [0x20, 0x09, 0xA0]\<rparr>, ex_storage)"
  using submitOrder_rejects_invalid [of "ex_app\<lparr>cart := []\<rparr>" "ex_env 1000 1000" ex_storage]
    submitOrder_rejects_invalid
      [of "ex_app\<lparr>pickupName_s := [0x20, 0x09, 0xA0]\<rparr>" "ex_env 1000 1000" ex_storage]
  by (simp add: ex_app_def is_ws_def)

lemma submitOrder_placed:
  assumes "cart st \<noteq> []" "trim (pickupName_s st) \<noteq> []"
  shows "placed (fst (snd (submitOrder e st ls))) = Some (the_order e st ls)"
    and "orders (fst (snd (submitOrder e st ls))) =
      take 300 (the_order e st ls # getAllOrders (now_read e) ls)"
proof -
  obtain q ls1 where q: "nextQueueNumber (nowYear e) ls = (q, ls1)"
    by (cases "nextQueueNumber (nowYear e) ls")
  then have ls1: "ls_orders ls1 = ls_orders ls"
    by (auto simp: nextQueueNumber_def Let_def split: prod.splits)
  then have g: "getAllOrders (now_read e) ls1 = getAllOrders (now_read e) ls"
    by (simp add: getAllOrders_def)
  show "placed (fst (snd (submitOrder e st ls))) = Some (the_order e st ls)"
    using assms q by (simp add: submitOrder_def the_order_def Let_def)
  show "orders (fst (snd (submitOrder e st ls))) =
      take 300 (the_order e st ls # getAllOrders (now_read e) ls)"
    using assms q g by (simp add: submitOrder_def the_order_def Let_def)
qed

theorem submitOrder_expiresAt_counterexample:
  "placed (fst (snd (submitOrder (ex_env 1000 1001) ex_app ex_storage))) \<noteq> None \<and>
   createdAt (the (placed (fst (snd (submitOrder (ex_env 1000 1001) ex_app ex_storage))))) = 1000 \<and>
   expiresAt (the (placed (fst (snd (submitOrder (ex_env 1000 1001) ex_app ex_storage))))) =
     Some 601001 \<and>
   expiresAt (the (placed (fst (snd (submitOrder (ex_env 1000 1001) ex_app ex_storage))))) \<noteq>
     Some (createdAt (the (placed (fst (snd (submitOrder (ex_env 1000 1001) ex_app ex_storage)))))
       + 600000)"
proof -
  have c: "cart ex_app \<noteq> []" by (simp add: ex_app_def)
  have t: "trim (pickupName_s ex_app) \<noteq> []" by (simp add: ex_app_def trim_def is_ws_def)
  show ?thesis
    unfolding submitOrder_placed(1) [OF c t]
    by (simp add: the_order_def ex_env_def PAYMENT_WINDOW_MIN_def)
qed

text \<open>
  C2, as the code has it. A submission that passes both checks places an order that is
  \<open>New\<close>, whose \<open>createdAt\<close> is the first reading of the clock and whose \<open>expiresAt\<close>
  is present and is the second reading plus 600000 ms. It is \<open>createdAt\<close> plus
  600000 ms when the two readings are equal; the theorem above is a submission where
  the clock moved from 1000 to 1001 between them.
\<close>

theorem submitOrder_expiresAt:
  assumes "cart st \<noteq> []" "trim (pickupName_s st) \<noteq> []"
  shows "\<exists>x. placed (fst (snd (submitOrder e st ls))) = Some x \<and>
    hd (orders (fst (snd (submitOrder e st ls)))) = x \<and>
    status x = New \<and>
    createdAt x = now_createdAt e \<and>
    expiresAt x = Some (now_expiresAt e + 600000) \<and>
    (now_expiresAt e = now_createdAt e \<longrightarrow> expiresAt x = Some (createdAt x + 600000))"
  using submitOrder_placed [OF assms, of e ls]
  by (simp add: the_order_def PAYMENT_WINDOW_MIN_def)

theorem submitOrder_expiresAt_witness:
  "placed (fst (snd (submitOrder (ex_env 1000 1000) ex_app ex_storage))) \<noteq> None \<and>
   createdAt (the (placed (fst (snd (submitOrder (ex_env 1000 1000) ex_app ex_storage))))) = 1000 \<and>
   expiresAt (the (placed (fst (snd (submitOrder (ex_env 1000 1000) ex_app ex_storage))))) =
     Some 601000"
proof -
  have c: "cart ex_app \<noteq> []" by (simp add: ex_app_def)
  have t: "trim (pickupName_s ex_app) \<noteq> []" by (simp add: ex_app_def trim_def is_ws_def)
  show ?thesis
    using submitOrder_expiresAt [OF c t, of "ex_env 1000 1000" ex_storage]
    by (auto simp: ex_env_def)
qed

lemma foldl_plus_sum_list:
  fixes a :: rat
  shows "foldl (\<lambda>s x. s + f x) a xs = a + sum_list (map f xs)"
  by (induction xs arbitrary: a) (simp_all add: add.assoc)

lemma addons_total_sum:
  "addons_total as =
    sum_list (map (\<lambda>a. price a * of_int (a_qty a)) (case as of Some xs \<Rightarrow> xs | None \<Rightarrow> []))"
  unfolding addons_total_def by (simp add: foldl_plus_sum_list)

lemma subtotal_items_sum: "subtotal c = items_sum (map order_item_of c)"
proof -
  have "subtotal c =
      foldl (\<lambda>s i. s + (unitPrice i * of_int (qty i) + addons_total (addons i))) 0 c"
    by (simp add: subtotal_def add.assoc)
  also have "\<dots> = sum_list (map (\<lambda>i. unitPrice i * of_int (qty i) + addons_total (addons i)) c)"
    by (simp add: foldl_plus_sum_list)
  also have "\<dots> = items_sum (map order_item_of c)"
    by (simp add: items_sum_def line_total_def order_item_of_def addons_total_sum comp_def)
  finally show ?thesis .
qed

lemma toFixed2_round:
  assumes "0 \<le> x" "x < 10 ^ 21"
  shows "toFixed2 x = of_int (round (x * 100)) / 100"
  using assms by (simp add: toFixed2_def round_def)

lemma toFixed2_close:
  assumes "0 \<le> x" "x < 10 ^ 21"
  shows "\<bar>toFixed2 x - x\<bar> \<le> 1 / 200"
proof -
  have "\<bar>of_int (round (x * 100)) - x * 100\<bar> \<le> 1 / 2"
    by (rule of_int_round_abs_le)
  then have "\<bar>(of_int (round (x * 100)) - x * 100) / 100\<bar> \<le> (1 / 2) / 100"
    by (simp add: abs_divide del: of_int_round_abs_le)
  moreover have "(of_int (round (x * 100)) - x * 100) / 100 = toFixed2 x - x"
    by (simp add: toFixed2_round [OF assms] diff_divide_distrib)
  ultimately show ?thesis by simp
qed

lemma load_cart_extends: "load_cart c h0 = (ls, h) \<Longrightarrow> \<exists>ext. h = h0 @ ext"
proof (induction c arbitrary: h0 ls h)
  case Nil
  then show ?case by simp
next
  case (Cons p ps)
  then show ?case
    by (fastforce simp: Let_def split: prod.splits)
qed

lemma nth_middle: "map (\<lambda>a. (xs @ ys @ zs) ! a) [length xs..<length xs + length ys] = ys"
  by (rule nth_equalityI) (simp_all add: nth_append)

lemma load_cart_shows:
  "load_cart c h0 = (ls, h) \<Longrightarrow> map (cart_item_at (h @ zs)) ls = c"
proof (induction c arbitrary: h0 ls h zs)
  case Nil
  then show ?case by simp
next
  case (Cons p ps)
  let ?as = "case addons p of Some xs \<Rightarrow> xs | None \<Rightarrow> []"
  obtain ls' where l: "load_cart ps (h0 @ ?as) = (ls', h)"
    and ls: "ls = \<lparr>l_sku = sku p, l_flavorId = flavorId p, l_name = name p,
              l_unitPrice = unitPrice p, l_qty = qty p,
              l_addons =
                (case addons p of
                   Some xs \<Rightarrow> Some [length h0..<length h0 + length xs]
                 | None \<Rightarrow> None)\<rparr> # ls'"
    using Cons.prems by (auto simp: Let_def split: prod.splits)
  from load_cart_extends [OF l] obtain ext where h: "h = h0 @ ?as @ ext" by auto
  have rest: "map (cart_item_at (h @ zs)) ls' = ps"
    using Cons.IH [OF l] .
  have first: "cart_item_at (h @ zs) (hd ls) = p"
  proof (cases "addons p")
    case None
    then show ?thesis by (simp add: ls cart_item_at_def)
  next
    case (Some xs)
    have "map (\<lambda>a. (h0 @ xs @ (ext @ zs)) ! a) [length h0..<length h0 + length xs] = xs"
      by (rule nth_middle)
    with Some show ?thesis by (simp add: ls cart_item_at_def h)
  qed
  show ?case using first rest by (simp add: ls)
qed

lemma cart_seen_after_Nil: "cart_seen_after [] c = c"
proof -
  obtain ls h where l: "load_cart c [] = (ls, h)" by (cases "load_cart c []")
  from load_cart_shows [OF l, of "[]"] l show ?thesis
    by (simp add: cart_seen_after_def)
qed

text \<open>
  With no press during the delay the callback finds the cart as it was rendered, and
  the total of the order is the sum over its items of unit price times quantity plus
  the add-ons' price times quantity, put through \<^verbatim>\<open>toFixed(2)\<close> once: for a sum from 0
  up to \<open>10^21\<close> that is the sum rounded to the nearest hundredth.
\<close>

lemma submitOrder_total_no_press:
  assumes "cart st \<noteq> []" "trim (pickupName_s st) \<noteq> []" "during e = []"
  shows "\<exists>x. placed (fst (snd (submitOrder e st ls))) = Some x \<and>
    items x = map order_item_of (cart st) \<and>
    total x = toFixed2 (items_sum (items x)) \<and>
    (0 \<le> items_sum (items x) \<and> items_sum (items x) < 10 ^ 21 \<longrightarrow>
       total x = of_int (round (items_sum (items x) * 100)) / 100 \<and>
       \<bar>total x - items_sum (items x)\<bar> \<le> 1 / 200)"
proof -
  let ?x = "the_order e st ls"
  have p: "placed (fst (snd (submitOrder e st ls))) = Some ?x"
    using assms(1,2) by (rule submitOrder_placed)
  have i: "items ?x = map order_item_of (cart st)"
    by (simp add: the_order_def assms(3) cart_seen_after_Nil)
  have t: "total ?x = toFixed2 (items_sum (items ?x))"
    unfolding i by (simp add: the_order_def subtotal_items_sum)
  have r: "total ?x = of_int (round (items_sum (items ?x) * 100)) / 100 \<and>
       \<bar>total ?x - items_sum (items ?x)\<bar> \<le> 1 / 200"
    if "0 \<le> items_sum (items ?x) \<and> items_sum (items ?x) < 10 ^ 21"
    unfolding t using that toFixed2_round toFixed2_close by blast
  from p i t r show ?thesis by blast
qed

lemma ex_cheese_cart_reached: "run_ops ex_cheese_ops [] = Inr ex_cheese_cart"
  by (simp add: ex_cheese_ops_def ex_cheese_cart_def addFlavor_def addCheeseToSouffle_def
      mk_flavor_def PRODUCT_id_def priceFor_def PRODUCT_basePrice_def CHEESE_addon_def
      CHEESE_id_def)

lemma ex_seen:
  "cart_seen_after [AddCheeseToSouffle ''souffle-van''] ex_cheese_cart =
    [\<lparr>sku = ''souffle-van'', flavorId = ''van'',
      name = PRODUCT_name @ '' '' @ [CHR 0xE2, CHR 0x80, CHR 0x94] @ '' '' @ ''Vanilla'',
      unitPrice = 12, qty = 1, addons = Some [CHEESE_addon\<lparr>a_qty := 2\<rparr>]\<rparr>]"
  by (simp add: cart_seen_after_def ex_cheese_cart_def addCheeseToSouffle_heap_def
      cart_item_at_def CHEESE_addon_def CHEESE_id_def)

text \<open>
  C5 against the code: the total of a submitted order is not always the rounded sum
  over its items. The cart is one vanilla line with one cheese topping, subtotal 14,
  reached by \<^verbatim>\<open>addFlavor\<close> and \<^verbatim>\<open>addCheeseToSouffle\<close>. Place Order is pressed, and
  during the delay Add Cheese is pressed on the line. The write \<^verbatim>\<open>ex.qty += 1\<close> lands
  in the add-on object that the cart of the callback holds, so the order placed has
  cheese twice and items that sum to 16, and its total is the 14 of the render that
  called \<^verbatim>\<open>submitOrder\<close>.
\<close>

theorem submitOrder_total_stale:
  "run_ops ex_cheese_ops [] = Inr ex_cheese_cart \<and>
   subtotal ex_cheese_cart = 14 \<and>
   placed (fst (snd (submitOrder
     ((ex_env 1000 1000)\<lparr>during := [AddCheeseToSouffle ''souffle-van'']\<rparr>)
     (ex_app\<lparr>cart := ex_cheese_cart\<rparr>) ex_storage))) \<noteq> None \<and>
   map (\<lambda>i. map a_qty (case oi_addons i of Some xs \<Rightarrow> xs | None \<Rightarrow> []))
     (items (the (placed (fst (snd (submitOrder
       ((ex_env 1000 1000)\<lparr>during := [AddCheeseToSouffle ''souffle-van'']\<rparr>)
       (ex_app\<lparr>cart := ex_cheese_cart\<rparr>) ex_storage)))))) = [[2]] \<and>
   items_sum (items (the (placed (fst (snd (submitOrder
     ((ex_env 1000 1000)\<lparr>during := [AddCheeseToSouffle ''souffle-van'']\<rparr>)
     (ex_app\<lparr>cart := ex_cheese_cart\<rparr>) ex_storage)))))) = 16 \<and>
   total (the (placed (fst (snd (submitOrder
     ((ex_env 1000 1000)\<lparr>during := [AddCheeseToSouffle ''souffle-van'']\<rparr>)
     (ex_app\<lparr>cart := ex_cheese_cart\<rparr>) ex_storage))))) = 14"
proof -
  let ?e = "(ex_env 1000 1000)\<lparr>during := [AddCheeseToSouffle ''souffle-van'']\<rparr>"
  let ?st = "ex_app\<lparr>cart := ex_cheese_cart\<rparr>"
  have c: "cart ?st \<noteq> []" by (simp add: ex_cheese_cart_def)
  have t: "trim (pickupName_s ?st) \<noteq> []" by (simp add: ex_app_def trim_def is_ws_def)
  have s: "subtotal ex_cheese_cart = 14"
    by (simp add: subtotal_def addons_total_def ex_cheese_cart_def CHEESE_addon_def
        CHEESE_price_def)
  have d: "during ?e = [AddCheeseToSouffle ''souffle-van'']" by simp
  have f: "toFixed2 14 = 14" using toFixed2_round [of 14] by simp
  show ?thesis
    unfolding submitOrder_placed(1) [OF c t]
    by (simp add: ex_cheese_cart_reached the_order_def d ex_seen s f)
      (simp add: items_sum_def line_total_def order_item_of_def CHEESE_addon_def
        CHEESE_price_def)
qed

section \<open>The store against the cart values\<close>

text \<open>
  The updaters over the store and the updaters on cart values are two readings of
  the same functions. Over a sound store they agree: the lines an updater returns
  show, over the store it leaves, the cart that the updater on values returns for
  the cart the lines showed before. They differ only in what an earlier cart shows
  afterwards.
\<close>

lemma addCheeseToSouffle_lines:
  "addCheeseToSouffle k c = map (\<lambda>p. if sku p \<noteq> k then p else souffle_cheese_line p) c"
  unfolding addCheeseToSouffle_def souffle_cheese_line_def ..

lemma addCheeseToSouffle_heap_lines:
  "addCheeseToSouffle_heap k c h =
    map_heap (\<lambda>p h. if l_sku p \<noteq> k then (p, h) else souffle_cheese_line_heap p h) c h"
  unfolding addCheeseToSouffle_heap_def souffle_cheese_line_heap_def ..

lemma addCheeseToDrink_heap_lines:
  "addCheeseToDrink_heap k c h =
    map_heap (\<lambda>p h. if l_sku p \<noteq> k then (p, h) else drink_cheese_line_heap p h) c h"
  unfolding addCheeseToDrink_heap_def drink_cheese_line_heap_def ..

lemma find_at:
  "find P (map (\<lambda>a. h ! a) as) = map_option (\<lambda>a. h ! a) (find (\<lambda>a. P (h ! a)) as)"
  by (induction as) simp_all

lemma write_at_first:
  assumes "distinct as" "find (\<lambda>a. P (h ! a)) as = Some ex" "\<forall>a\<in>set as. a < length h"
  shows "map (\<lambda>a. h[ex := g (h ! ex)] ! a) as = upd_first P g (map (\<lambda>a. h ! a) as)"
  using assms
proof (induction as)
  case Nil
  then show ?case by simp
next
  case (Cons a as)
  show ?case
  proof (cases "P (h ! a)")
    case True
    with Cons.prems have ex: "ex = a" by simp
    have "h[a := g (h ! a)] ! b = h ! b" if "b \<in> set as" for b
    proof -
      from that Cons.prems(1) have "a \<noteq> b" by auto
      then show ?thesis by (rule nth_list_update_neq)
    qed
    then have "map (\<lambda>b. h[a := g (h ! a)] ! b) as = map (\<lambda>b. h ! b) as"
      by (intro map_cong) simp_all
    with True ex Cons.prems(3) show ?thesis by simp
  next
    case False
    with Cons.prems have f: "find (\<lambda>a. P (h ! a)) as = Some ex" by simp
    then have "ex \<in> set as" by (auto simp: find_Some_iff)
    with Cons.prems(1) have "ex \<noteq> a" by auto
    with False Cons.IH [OF _ f] Cons.prems show ?thesis by simp
  qed
qed

lemma cart_item_at_same:
  "\<forall>a\<in>set (refs_of l). h' ! a = h ! a \<Longrightarrow> cart_item_at h' l = cart_item_at h l"
  by (auto simp: cart_item_at_def refs_of_def split: option.splits)

lemma view_addons:
  "(case addons (cart_item_at h p) of Some xs \<Rightarrow> xs | None \<Rightarrow> []) = map (\<lambda>a. h ! a) (refs_of p)"
  by (simp add: cart_item_at_def refs_of_def split: option.splits)

lemma push_shows:
  assumes "distinct (refs_of p)" "\<forall>a\<in>set (refs_of p). a < length h"
  shows "step_shows p h (p\<lparr>l_addons := Some (refs_of p @ [length h])\<rparr>) (h @ [x])
    ((cart_item_at h p)\<lparr>addons := Some (map (\<lambda>a. h ! a) (refs_of p) @ [x])\<rparr>)"
proof -
  have m: "map (\<lambda>a. (h @ [x]) ! a) (refs_of p) = map (\<lambda>a. h ! a) (refs_of p)"
    using assms(2) by (intro map_cong) (auto simp: nth_append)
  have "cart_item_at (h @ [x]) (p\<lparr>l_addons := Some (refs_of p @ [length h])\<rparr>) =
      (cart_item_at h p)\<lparr>addons := Some (map (\<lambda>a. h ! a) (refs_of p) @ [x])\<rparr>"
    by (simp add: cart_item_at_def m)
  moreover have "distinct (refs_of p @ [length h])"
    using assms by auto
  ultimately show ?thesis
    by (auto simp: step_shows_def refs_of_def nth_append)
qed

lemma write_shows:
  assumes "distinct (refs_of p)" "\<forall>a\<in>set (refs_of p). a < length h"
    "find (\<lambda>a. P (h ! a)) (refs_of p) = Some ex"
  shows "step_shows p h (p\<lparr>l_addons := Some (refs_of p)\<rparr>) (h[ex := g (h ! ex)])
    ((cart_item_at h p)\<lparr>addons := Some (upd_first P g (map (\<lambda>a. h ! a) (refs_of p)))\<rparr>)"
proof -
  have ex: "ex \<in> set (refs_of p)" using assms(3) by (auto simp: find_Some_iff)
  have m: "map (\<lambda>a. h[ex := g (h ! ex)] ! a) (refs_of p) =
      upd_first P g (map (\<lambda>a. h ! a) (refs_of p))"
    using assms(1,3,2) by (rule write_at_first)
  have "cart_item_at (h[ex := g (h ! ex)]) (p\<lparr>l_addons := Some (refs_of p)\<rparr>) =
      (cart_item_at h p)\<lparr>addons := Some (upd_first P g (map (\<lambda>a. h ! a) (refs_of p)))\<rparr>"
    by (simp add: cart_item_at_def m)
  moreover have "h[ex := g (h ! ex)] ! a = h ! a" if "a \<notin> set (refs_of p)" for a
  proof -
    from that ex have "ex \<noteq> a" by auto
    then show ?thesis by (rule nth_list_update_neq)
  qed
  moreover have "refs_of (p\<lparr>l_addons := Some (refs_of p)\<rparr>) = refs_of p"
    by (simp add: refs_of_def)
  ultimately show ?thesis
    using assms(1) by (simp add: step_shows_def)
qed

lemma keep_shows:
  assumes "distinct (refs_of p)"
  shows "step_shows p h (p\<lparr>l_addons := Some (refs_of p)\<rparr>) h
    ((cart_item_at h p)\<lparr>addons := Some (map (\<lambda>a. h ! a) (refs_of p))\<rparr>)"
  using assms by (auto simp: step_shows_def refs_of_def cart_item_at_def)

lemma same_shows:
  assumes "distinct (refs_of p)"
  shows "step_shows p h p h (cart_item_at h p)"
  using assms by (auto simp: step_shows_def)

lemma souffle_cheese_line_heap_shows:
  assumes "distinct (refs_of p)" "\<forall>a\<in>set (refs_of p). a < length h"
    "souffle_cheese_line_heap p h = (p', h')"
  shows "step_shows p h p' h' (souffle_cheese_line (cart_item_at h p))"
proof (cases "find (\<lambda>a. a_id (h ! a) = CHEESE_id) (refs_of p)")
  case None
  then have "find (\<lambda>a. a_id a = CHEESE_id) (map (\<lambda>a. h ! a) (refs_of p)) = None"
    by (simp add: find_at)
  then have "souffle_cheese_line (cart_item_at h p) =
      (cart_item_at h p)\<lparr>addons := Some (map (\<lambda>a. h ! a) (refs_of p) @ [CHEESE_addon])\<rparr>"
    unfolding souffle_cheese_line_def view_addons Let_def by simp
  moreover have "p' = p\<lparr>l_addons := Some (refs_of p @ [length h])\<rparr>" "h' = h @ [CHEESE_addon]"
    using assms(3) None by (simp_all add: souffle_cheese_line_heap_def refs_of_def)
  ultimately show ?thesis
    using push_shows [OF assms(1,2)] by simp
next
  case (Some ex)
  then have "find (\<lambda>a. a_id a = CHEESE_id) (map (\<lambda>a. h ! a) (refs_of p)) = Some (h ! ex)"
    by (simp add: find_at)
  then have "souffle_cheese_line (cart_item_at h p) =
      (cart_item_at h p)\<lparr>addons := Some (upd_first (\<lambda>a. a_id a = CHEESE_id)
        (\<lambda>a. a\<lparr>a_qty := a_qty a + 1\<rparr>) (map (\<lambda>a. h ! a) (refs_of p)))\<rparr>"
    unfolding souffle_cheese_line_def view_addons Let_def by simp
  moreover have "p' = p\<lparr>l_addons := Some (refs_of p)\<rparr>"
    "h' = h[ex := (h ! ex)\<lparr>a_qty := a_qty (h ! ex) + 1\<rparr>]"
    using assms(3) Some by (simp_all add: souffle_cheese_line_heap_def refs_of_def)
  ultimately show ?thesis
    using write_shows [OF assms(1,2) Some, of "\<lambda>a. a\<lparr>a_qty := a_qty a + 1\<rparr>"] by simp
qed

lemma drink_cheese_line_heap_shows:
  assumes "distinct (refs_of p)" "\<forall>a\<in>set (refs_of p). a < length h"
    "drink_cheese_line_heap p h = (p', h')"
  shows "step_shows p h p' h' (drink_cheese_line (cart_item_at h p))"
proof (cases "find (\<lambda>a. a_id (h ! a) = CHEESE_id) (refs_of p)")
  case None
  then have "find (\<lambda>a. a_id a = CHEESE_id) (map (\<lambda>a. h ! a) (refs_of p)) = None"
    by (simp add: find_at)
  then have "drink_cheese_line (cart_item_at h p) =
      (cart_item_at h p)\<lparr>addons := Some (map (\<lambda>a. h ! a) (refs_of p) @ [CHEESE_addon])\<rparr>"
    unfolding drink_cheese_line_def view_addons Let_def by simp
  moreover have "p' = p\<lparr>l_addons := Some (refs_of p @ [length h])\<rparr>" "h' = h @ [CHEESE_addon]"
    using assms(3) None by (simp_all add: drink_cheese_line_heap_def refs_of_def)
  ultimately show ?thesis
    using push_shows [OF assms(1,2)] by simp
next
  case (Some ex)
  then have f: "find (\<lambda>a. a_id a = CHEESE_id) (map (\<lambda>a. h ! a) (refs_of p)) = Some (h ! ex)"
    by (simp add: find_at)
  have q: "qty (cart_item_at h p) = l_qty p" by (simp add: cart_item_at_def)
  show ?thesis
  proof (cases "a_qty (h ! ex) < l_qty p")
    case True
    then have "drink_cheese_line (cart_item_at h p) =
        (cart_item_at h p)\<lparr>addons := Some (upd_first (\<lambda>a. a_id a = CHEESE_id)
          (\<lambda>a. a\<lparr>a_qty := a_qty a + 1\<rparr>) (map (\<lambda>a. h ! a) (refs_of p)))\<rparr>"
      unfolding drink_cheese_line_def view_addons Let_def f q by simp
    moreover have "p' = p\<lparr>l_addons := Some (refs_of p)\<rparr>"
      "h' = h[ex := (h ! ex)\<lparr>a_qty := a_qty (h ! ex) + 1\<rparr>]"
      using assms(3) Some True by (simp_all add: drink_cheese_line_heap_def refs_of_def)
    ultimately show ?thesis
      using write_shows [OF assms(1,2) Some, of "\<lambda>a. a\<lparr>a_qty := a_qty a + 1\<rparr>"] by simp
  next
    case False
    then have "drink_cheese_line (cart_item_at h p) =
        (cart_item_at h p)\<lparr>addons := Some (map (\<lambda>a. h ! a) (refs_of p))\<rparr>"
      unfolding drink_cheese_line_def view_addons Let_def f q by simp
    moreover have "p' = p\<lparr>l_addons := Some (refs_of p)\<rparr>" "h' = h"
      using assms(3) Some False by (simp_all add: drink_cheese_line_heap_def refs_of_def)
    ultimately show ?thesis
      using keep_shows [OF assms(1)] by simp
  qed
qed

lemma sound_store_refs:
  "sound_store c h = (distinct (cart_refs c) \<and> (\<forall>a\<in>set (cart_refs c). a < length h))"
  by (simp add: sound_store_def cart_refs_def)

lemma cart_at_same:
  "\<forall>a\<in>set (cart_refs c). h' ! a = h ! a \<Longrightarrow> cart_at h' c = cart_at h c"
  by (induction c) (simp_all add: cart_at_def cart_refs_def cart_item_at_same)

lemma map_heap_shows:
  assumes f: "\<And>p h p' h'. distinct (refs_of p) \<Longrightarrow> \<forall>a\<in>set (refs_of p). a < length h \<Longrightarrow>
      f p h = (p', h') \<Longrightarrow> step_shows p h p' h' (g (cart_item_at h p))"
  shows "distinct (cart_refs c) \<Longrightarrow> \<forall>a\<in>set (cart_refs c). a < length h \<Longrightarrow>
    map_heap f c h = (c', h') \<Longrightarrow> run_shows c h c' h' (map g (cart_at h c))"
proof (induction c arbitrary: h c' h')
  case Nil
  then show ?case by (simp add: run_shows_def cart_at_def cart_refs_def)
next
  case (Cons p ps)
  obtain p1 h1 where fp: "f p h = (p1, h1)" by (cases "f p h")
  obtain ps1 h2 where fps: "map_heap f ps h1 = (ps1, h2)" by (cases "map_heap f ps h1")
  from Cons.prems(3) fp fps have c': "c' = p1 # ps1" and h': "h' = h2" by simp_all
  from Cons.prems(1) have dp: "distinct (refs_of p)" and dps: "distinct (cart_refs ps)"
    and disj: "set (refs_of p) \<inter> set (cart_refs ps) = {}"
    by (simp_all add: cart_refs_def)
  from Cons.prems(2) have bp: "\<forall>a\<in>set (refs_of p). a < length h"
    and bps: "\<forall>a\<in>set (cart_refs ps). a < length h"
    by (simp_all add: cart_refs_def)
  from f [OF dp bp fp] have
    v1: "cart_item_at h1 p1 = g (cart_item_at h p)" and
    l1: "length h \<le> length h1" and
    fr1: "\<And>a. a < length h \<Longrightarrow> a \<notin> set (refs_of p) \<Longrightarrow> h1 ! a = h ! a" and
    r1: "set (refs_of p1) \<subseteq> set (refs_of p) \<union> {length h..<length h1}" and
    d1: "distinct (refs_of p1)"
    by (simp_all add: step_shows_def)
  from bps l1 have bps1: "\<forall>a\<in>set (cart_refs ps). a < length h1"
    by (meson less_le_trans)
  from Cons.IH [OF dps bps1 fps] have
    v2: "cart_at h2 ps1 = map g (cart_at h1 ps)" and
    l2: "length h1 \<le> length h2" and
    fr2: "\<And>a. a < length h1 \<Longrightarrow> a \<notin> set (cart_refs ps) \<Longrightarrow> h2 ! a = h1 ! a" and
    r2: "set (cart_refs ps1) \<subseteq> set (cart_refs ps) \<union> {length h1..<length h2}" and
    d2: "distinct (cart_refs ps1)" and
    b2: "\<forall>a\<in>set (cart_refs ps1). a < length h2"
    by (simp_all add: run_shows_def)
  have bp': "a < length h" if "a \<in> set (refs_of p)" for a
    using that bp by blast
  have bps': "a < length h" if "a \<in> set (cart_refs ps)" for a
    using that bps by blast
  have in1: "a \<in> set (refs_of p) \<or> (length h \<le> a \<and> a < length h1)"
    if "a \<in> set (refs_of p1)" for a
    using that r1 by auto
  have in2: "a \<in> set (cart_refs ps) \<or> (length h1 \<le> a \<and> a < length h2)"
    if "a \<in> set (cart_refs ps1)" for a
    using that r2 by auto
  have "h1 ! a = h ! a" if "a \<in> set (cart_refs ps)" for a
  proof -
    from that disj have "a \<notin> set (refs_of p)" by blast
    with bps' [OF that] show ?thesis by (rule fr1)
  qed
  then have same_ps: "cart_at h1 ps = cart_at h ps"
    by (intro cart_at_same) simp
  have b1: "a < length h1" if "a \<in> set (refs_of p1)" for a
    using in1 [OF that] bp' [of a] l1 by linarith
  have out1: "a \<notin> set (cart_refs ps)" if "a \<in> set (refs_of p1)" for a
  proof
    assume a: "a \<in> set (cart_refs ps)"
    with disj have "a \<notin> set (refs_of p)" by blast
    with in1 [OF that] bps' [OF a] show False by linarith
  qed
  have "h2 ! a = h1 ! a" if "a \<in> set (refs_of p1)" for a
    using that b1 out1 fr2 by simp
  then have same_p1: "cart_item_at h2 p1 = cart_item_at h1 p1"
    by (intro cart_item_at_same) simp
  have view: "cart_at h2 (p1 # ps1) = map g (cart_at h (p # ps))"
    using v1 v2 same_ps same_p1 by (simp add: cart_at_def)
  have len: "length h \<le> length h2" using l1 l2 by simp
  have frame: "h2 ! a = h ! a" if "a < length h" "a \<notin> set (cart_refs (p # ps))" for a
  proof -
    from that have "a < length h1" "a \<notin> set (cart_refs ps)" "a \<notin> set (refs_of p)"
      using l1 by (simp_all add: cart_refs_def)
    with that(1) fr1 [of a] fr2 [of a] show ?thesis by simp
  qed
  have refs: "set (cart_refs (p1 # ps1)) \<subseteq> set (cart_refs (p # ps)) \<union> {length h..<length h2}"
  proof
    fix a
    assume "a \<in> set (cart_refs (p1 # ps1))"
    then have "a \<in> set (refs_of p1) \<or> a \<in> set (cart_refs ps1)"
      by (simp add: cart_refs_def)
    then have "a \<in> set (refs_of p) \<or> a \<in> set (cart_refs ps) \<or> (length h \<le> a \<and> a < length h2)"
      using in1 [of a] in2 [of a] l1 l2 by linarith
    then show "a \<in> set (cart_refs (p # ps)) \<union> {length h..<length h2}"
      by (auto simp: cart_refs_def)
  qed
  have "set (refs_of p1) \<inter> set (cart_refs ps1) = {}"
  proof -
    have "a \<notin> set (cart_refs ps1)" if "a \<in> set (refs_of p1)" for a
    proof
      assume "a \<in> set (cart_refs ps1)"
      from in2 [OF this] b1 [OF that] out1 [OF that] show False by linarith
    qed
    then show ?thesis by blast
  qed
  with d1 d2 have dist: "distinct (cart_refs (p1 # ps1))"
    by (simp add: cart_refs_def)
  have bound: "\<forall>a\<in>set (cart_refs (p1 # ps1)). a < length h2"
  proof
    fix a
    assume "a \<in> set (cart_refs (p1 # ps1))"
    then have "a \<in> set (refs_of p1) \<or> a \<in> set (cart_refs ps1)"
      by (simp add: cart_refs_def)
    then show "a < length h2"
    proof
      assume "a \<in> set (refs_of p1)"
      from b1 [OF this] l2 show ?thesis by linarith
    next
      assume "a \<in> set (cart_refs ps1)"
      with b2 show ?thesis by blast
    qed
  qed
  from view len frame refs dist bound show ?case
    unfolding run_shows_def c' h' by blast
qed

lemma souffle_step:
  assumes "distinct (refs_of p)" "\<forall>a\<in>set (refs_of p). a < length h"
    "(if l_sku p \<noteq> k then (p, h) else souffle_cheese_line_heap p h) = (p', h')"
  shows "step_shows p h p' h'
    ((\<lambda>v. if sku v \<noteq> k then v else souffle_cheese_line v) (cart_item_at h p))"
proof (cases "l_sku p \<noteq> k")
  case True
  with assms(3) have "p' = p" "h' = h" by simp_all
  moreover have "sku (cart_item_at h p) \<noteq> k" using True by (simp add: cart_item_at_def)
  ultimately show ?thesis using same_shows [OF assms(1)] by simp
next
  case False
  with assms(3) have "souffle_cheese_line_heap p h = (p', h')" by simp
  from souffle_cheese_line_heap_shows [OF assms(1,2) this] False
  show ?thesis by (simp add: cart_item_at_def)
qed

lemma drink_step:
  assumes "distinct (refs_of p)" "\<forall>a\<in>set (refs_of p). a < length h"
    "(if l_sku p \<noteq> k then (p, h) else drink_cheese_line_heap p h) = (p', h')"
  shows "step_shows p h p' h'
    ((\<lambda>v. if sku v \<noteq> k then v else drink_cheese_line v) (cart_item_at h p))"
proof (cases "l_sku p \<noteq> k")
  case True
  with assms(3) have "p' = p" "h' = h" by simp_all
  moreover have "sku (cart_item_at h p) \<noteq> k" using True by (simp add: cart_item_at_def)
  ultimately show ?thesis using same_shows [OF assms(1)] by simp
next
  case False
  with assms(3) have "drink_cheese_line_heap p h = (p', h')" by simp
  from drink_cheese_line_heap_shows [OF assms(1,2) this] False
  show ?thesis by (simp add: cart_item_at_def)
qed

lemma addCheeseToSouffle_heap_shows:
  assumes "distinct (cart_refs c)" "\<forall>a\<in>set (cart_refs c). a < length h"
    "addCheeseToSouffle_heap k c h = (c', h')"
  shows "run_shows c h c' h' (addCheeseToSouffle k (cart_at h c))"
proof -
  from assms(3) have m: "map_heap (\<lambda>p h. if l_sku p \<noteq> k then (p, h)
      else souffle_cheese_line_heap p h) c h = (c', h')"
    by (simp add: addCheeseToSouffle_heap_lines)
  show ?thesis
    unfolding addCheeseToSouffle_lines
    by (rule map_heap_shows [OF souffle_step assms(1,2) m])
qed


lemma addCheeseToDrink_heap_shows:
  assumes "distinct (cart_refs c)" "\<forall>a\<in>set (cart_refs c). a < length h"
    "addCheeseToDrink_heap k c h = (c', h')"
  shows "run_shows c h c' h' (addCheeseToDrink k (cart_at h c))"
proof -
  from assms(3) have m: "map_heap (\<lambda>p h. if l_sku p \<noteq> k then (p, h)
      else drink_cheese_line_heap p h) c h = (c', h')"
    by (simp add: addCheeseToDrink_heap_lines)
  show ?thesis
    unfolding addCheeseToDrink_lines
    by (rule map_heap_shows [OF drink_step assms(1,2) m])
qed

lemma cart_at_find:
  "find (\<lambda>p. sku p = k) (cart_at h c) =
    map_option (cart_item_at h) (find (\<lambda>p. l_sku p = k) c)"
  by (induction c) (simp_all add: cart_at_def cart_item_at_def)

lemma cart_at_qty:
  "cart_at h (map (\<lambda>p. if l_sku p = k then p\<lparr>l_qty := g (l_qty p)\<rparr> else p) c) =
    map (\<lambda>p. if sku p = k then p\<lparr>qty := g (qty p)\<rparr> else p) (cart_at h c)"
  by (induction c) (simp_all add: cart_at_def cart_item_at_def)

lemma cart_refs_qty:
  "cart_refs (map (\<lambda>p. if l_sku p = k then p\<lparr>l_qty := g (l_qty p)\<rparr> else p) c) = cart_refs c"
  by (induction c) (simp_all add: cart_refs_def refs_of_def)

lemma cart_at_filter:
  "cart_at h (filter (\<lambda>p. l_sku p \<noteq> k) c) = filter (\<lambda>p. sku p \<noteq> k) (cart_at h c)"
  by (induction c) (simp_all add: cart_at_def cart_item_at_def)

lemma cart_refs_filter:
  "set (cart_refs (filter P c)) \<subseteq> set (cart_refs c) \<and>
    (distinct (cart_refs c) \<longrightarrow> distinct (cart_refs (filter P c)))"
  by (induction c) (auto simp: cart_refs_def)

lemma sound_store_qty:
  "sound_store c h \<Longrightarrow>
    sound_store (map (\<lambda>p. if l_sku p = k then p\<lparr>l_qty := g (l_qty p)\<rparr> else p) c) h"
  by (simp add: sound_store_refs cart_refs_qty)

lemma sound_store_filter:
  "sound_store c h \<Longrightarrow> sound_store (filter P c) h"
  using cart_refs_filter [of P c] by (auto simp: sound_store_refs)

lemma sound_store_new_line:
  "sound_store c h \<Longrightarrow> l_addons l = Some [] \<Longrightarrow> sound_store (c @ [l]) h"
  by (simp add: sound_store_refs cart_refs_def refs_of_def)

lemma cart_at_new_line:
  "l_addons l = Some [] \<Longrightarrow> cart_at h (c @ [l]) =
    cart_at h c @ [\<lparr>sku = l_sku l, flavorId = l_flavorId l, name = l_name l,
      unitPrice = l_unitPrice l, qty = l_qty l, addons = Some []\<rparr>]"
  by (simp add: cart_at_def cart_item_at_def)

lemma addFlavor_heap_shows:
  "cart_at h (addFlavor_heap f c) = addFlavor f (cart_at h c)"
proof (cases "find (\<lambda>p. l_sku p = PRODUCT_id @ ''-'' @ f_id f) c")
  case None
  then show ?thesis
    by (simp add: addFlavor_heap_def addFlavor_def cart_at_find cart_at_new_line)
next
  case (Some ex)
  then show ?thesis
    using cart_at_qty [of h "PRODUCT_id @ ''-'' @ f_id f" "\<lambda>q. q + 1" c]
    by (simp add: addFlavor_heap_def addFlavor_def cart_at_find)
qed

lemma addFlavor_heap_sound:
  "sound_store c h \<Longrightarrow> sound_store (addFlavor_heap f c) h"
proof (cases "find (\<lambda>p. l_sku p = PRODUCT_id @ ''-'' @ f_id f) c")
  case None
  assume "sound_store c h"
  with None show ?thesis
    by (simp add: addFlavor_heap_def sound_store_new_line)
next
  case (Some ex)
  assume "sound_store c h"
  with Some show ?thesis
    using sound_store_qty [of c h "PRODUCT_id @ ''-'' @ f_id f" "\<lambda>q. q + 1"]
    by (simp add: addFlavor_heap_def)
qed

lemma addDrink_heap_shows:
  "addDrink i (cart_at h c) = map_sum (\<lambda>e. e) (cart_at h) (addDrink_heap i c)"
proof (cases "find (\<lambda>x. d_id x = i) DRINKS")
  case None
  then show ?thesis by (simp add: addDrink_def addDrink_heap_def)
next
  case (Some d)
  show ?thesis
  proof (cases "find (\<lambda>p. l_sku p = d_id d) c")
    case None
    with Some show ?thesis
      by (simp add: addDrink_heap_def addDrink_def cart_at_find cart_at_new_line)
  next
    case (Some ex)
    with \<open>find (\<lambda>x. d_id x = i) DRINKS = Some d\<close> show ?thesis
      using cart_at_qty [of h "d_id d" "\<lambda>q. q + 1" c]
      by (simp add: addDrink_heap_def addDrink_def cart_at_find)
  qed
qed

lemma addDrink_heap_sound:
  "sound_store c h \<Longrightarrow> addDrink_heap i c = Inr c' \<Longrightarrow> sound_store c' h"
  using sound_store_qty [of c h _ "\<lambda>q. q + 1"]
  by (auto simp: addDrink_heap_def sound_store_new_line split: option.splits)

lemma inc_heap_shows: "cart_at h (inc_heap k c) = inc k (cart_at h c)"
  using cart_at_qty [of h k "\<lambda>q. q + 1" c] by (simp add: inc_heap_def inc_def)

lemma inc_heap_sound: "sound_store c h \<Longrightarrow> sound_store (inc_heap k c) h"
  using sound_store_qty [of c h k "\<lambda>q. q + 1"] by (simp add: inc_heap_def)

lemma dec_heap_shows: "cart_at h (dec_heap k c) = dec k (cart_at h c)"
proof (cases "find (\<lambda>p. l_sku p = k) c")
  case None
  then show ?thesis by (simp add: dec_heap_def dec_def cart_at_find)
next
  case (Some x)
  have "qty (cart_item_at h x) = l_qty x" by (simp add: cart_item_at_def)
  with Some show ?thesis
    using cart_at_qty [of h k "\<lambda>q. q - 1" c]
    by (simp add: dec_heap_def dec_def cart_at_find cart_at_filter)
qed

lemma dec_heap_sound: "sound_store c h \<Longrightarrow> sound_store (dec_heap k c) h"
  using sound_store_qty [of c h k "\<lambda>q. q - 1"]
  by (auto simp: dec_heap_def sound_store_filter split: option.splits)

text \<open>
  Every cart action over a sound store: it fails when the action on values fails,
  and else the new lines over the new store show the new cart, and the store is
  sound for them.
\<close>

lemma apply_op_heap_shows:
  assumes "sound_store c h"
  shows "case apply_op_heap x c h of
      Inl e \<Rightarrow> apply_op x (cart_at h c) = Inl e
    | Inr (c', h') \<Rightarrow> apply_op x (cart_at h c) = Inr (cart_at h' c') \<and> sound_store c' h'"
proof (cases x)
  case (AddFlavor f)
  with assms show ?thesis by (simp add: addFlavor_heap_shows addFlavor_heap_sound)
next
  case (AddDrink i)
  with assms show ?thesis
    by (auto simp: addDrink_heap_shows addDrink_heap_sound split: sum.splits)
next
  case (AddCheeseToSouffle k)
  obtain c' h' where r: "addCheeseToSouffle_heap k c h = (c', h')"
    by (cases "addCheeseToSouffle_heap k c h")
  from assms have "distinct (cart_refs c)" "\<forall>a\<in>set (cart_refs c). a < length h"
    by (simp_all add: sound_store_refs)
  from addCheeseToSouffle_heap_shows [OF this r] AddCheeseToSouffle r show ?thesis
    by (simp add: run_shows_def sound_store_refs)
next
  case (AddCheeseToDrink k)
  obtain c' h' where r: "addCheeseToDrink_heap k c h = (c', h')"
    by (cases "addCheeseToDrink_heap k c h")
  from assms have "distinct (cart_refs c)" "\<forall>a\<in>set (cart_refs c). a < length h"
    by (simp_all add: sound_store_refs)
  from addCheeseToDrink_heap_shows [OF this r] AddCheeseToDrink r show ?thesis
    by (simp add: run_shows_def sound_store_refs)
next
  case (Inc k)
  with assms show ?thesis by (simp add: inc_heap_shows inc_heap_sound)
next
  case (Dec k)
  with assms show ?thesis by (simp add: dec_heap_shows dec_heap_sound)
next
  case ClearCart
  then show ?thesis by (simp add: clearCart_def cart_at_def sound_store_def)
qed

text \<open>
  The lines and the store that \<open>load_cart\<close> makes of a cart are sound and show that
  cart.
\<close>

lemma load_cart_refs:
  "load_cart c h0 = (ls, h) \<Longrightarrow>
    distinct (cart_refs ls) \<and> (\<forall>a\<in>set (cart_refs ls). length h0 \<le> a \<and> a < length h)"
proof (induction c arbitrary: h0 ls h)
  case Nil
  then show ?case by (simp add: cart_refs_def)
next
  case (Cons p ps)
  let ?as = "case addons p of Some xs \<Rightarrow> xs | None \<Rightarrow> []"
  let ?l = "\<lparr>l_sku = sku p, l_flavorId = flavorId p, l_name = name p,
              l_unitPrice = unitPrice p, l_qty = qty p,
              l_addons =
                (case addons p of
                   Some xs \<Rightarrow> Some [length h0..<length h0 + length xs]
                 | None \<Rightarrow> None)\<rparr>"
  obtain ls' where l: "load_cart ps (h0 @ ?as) = (ls', h)" and ls: "ls = ?l # ls'"
    using Cons.prems by (auto simp: Let_def split: prod.splits)
  from load_cart_extends [OF l] obtain ext where h: "h = h0 @ ?as @ ext" by auto
  have r: "refs_of ?l = [length h0..<length h0 + length ?as]"
    by (simp add: refs_of_def split: option.splits)
  from Cons.IH [OF l] have d: "distinct (cart_refs ls')"
    and b: "\<And>a. a \<in> set (cart_refs ls') \<Longrightarrow> length h0 + length ?as \<le> a \<and> a < length h"
    by simp_all
  have "set (refs_of ?l) \<inter> set (cart_refs ls') = {}"
  proof -
    have "a \<notin> set (cart_refs ls')" if "a \<in> set (refs_of ?l)" for a
    proof
      assume "a \<in> set (cart_refs ls')"
      from b [OF this] that show False unfolding r by simp
    qed
    then show ?thesis by blast
  qed
  moreover have "distinct (refs_of ?l)" unfolding r by simp
  ultimately have "distinct (cart_refs ls)"
    using d unfolding ls cart_refs_def by simp
  moreover have "length h0 \<le> a \<and> a < length h" if "a \<in> set (cart_refs ls)" for a
  proof -
    from that have "a \<in> set (refs_of ?l) \<or> a \<in> set (cart_refs ls')"
      unfolding ls cart_refs_def by simp
    then show ?thesis
    proof
      assume "a \<in> set (refs_of ?l)"
      then show ?thesis unfolding r h by simp
    next
      assume "a \<in> set (cart_refs ls')"
      from b [OF this] show ?thesis by simp
    qed
  qed
  ultimately show ?case by blast
qed

lemma load_cart_sound: "load_cart c [] = (ls, h) \<Longrightarrow> sound_store ls h \<and> cart_at h ls = c"
  using load_cart_refs [of c "[]" ls h] load_cart_shows [of c "[]" ls h "[]"]
  by (simp add: sound_store_refs cart_at_def)

section \<open>Properties of the staff board\<close>

lemma apply_status_patch: "apply_patch (no_patch\<lparr>p_status := Some t\<rparr>) x = x\<lparr>status := t\<rparr>"
  by (simp add: apply_patch_def no_patch_def)

lemma updateOrder_status:
  "updateOrder clk i (no_patch\<lparr>p_status := Some t\<rparr>) st ls =
    (st\<lparr>orders := map (\<lambda>y. if o_id y = i then y\<lparr>status := t\<rparr> else y) (getAllOrders clk ls)\<rparr>,
     saveAllOrders (map (\<lambda>y. if o_id y = i then y\<lparr>status := t\<rparr> else y) (getAllOrders clk ls)) ls)"
  unfolding updateOrder_def Let_def apply_status_patch ..

lemma updateOrder_status_read:
  "getAllOrders clk' (snd (updateOrder clk i (no_patch\<lparr>p_status := Some t\<rparr>) st ls)) =
    map (\<lambda>y. if o_id y = i then y\<lparr>status := t\<rparr> else y) (getAllOrders clk ls)"
proof -
  have "\<forall>x\<in>set (map (\<lambda>y. if o_id y = i then y\<lparr>status := t\<rparr> else y) (getAllOrders clk ls)).
      expiresAt x \<noteq> Some 0"
    using getAllOrders_no_zero [of clk ls] by auto
  then show ?thesis
    unfolding updateOrder_status by (simp add: getAllOrders_saveAllOrders)
qed

theorem terminal_status_counterexample:
  "status ex_done = Done \<and>
   map_option (\<lambda>r. map status (getAllOrders (\<lambda>i. 0) (snd r)))
     (click_status (\<lambda>i. 0) FAll ex_done Ready ex_board ex_board_storage) = Some [Ready]"
proof -
  have a: "click_status (\<lambda>i. 0) FAll ex_done Ready ex_board ex_board_storage =
      Some (updateOrder (\<lambda>i. 0) (o_id ex_done) (no_patch\<lparr>p_status := Some Ready\<rparr>)
        ex_board ex_board_storage)"
    by (simp add: click_status_def filtered_def ex_board_def ex_done_def status_buttons_def)
  have b: "getAllOrders (\<lambda>i. 0) ex_board_storage = [ex_done]"
    unfolding ex_board_storage_def
    by (rule getAllOrders_saveAllOrders) (simp add: ex_done_def)
  show ?thesis
    unfolding a by (simp add: updateOrder_status_read b) (simp add: ex_done_def)
qed

text \<open>
  C1, as the code has it. \<open>Done\<close> and \<open>Cancelled\<close> are not closed to the operator. On
  the card of an order in either status there is no button for \<open>New\<close>, for \<open>Paid\<close> or
  for the status the order has; there is one for each of \<open>Preparing\<close>, \<open>Ready\<close>,
  \<open>Done\<close> and \<open>Cancelled\<close> that is not its status, and a click on it writes that
  status to every stored order with the id of the card, which is then what the
  storage reads back. The theorem above is a \<open>Done\<close> order made \<open>Ready\<close>.
\<close>

theorem done_cancelled_still_offer_transitions:
  assumes "status x = Done \<or> status x = Cancelled"
  shows "click_status clk flt x New st ls = None \<and>
    click_status clk flt x Paid st ls = None \<and>
    click_status clk flt x (status x) st ls = None \<and>
    (\<forall>t. t \<in> {Preparing, Ready, Done, Cancelled} - {status x} \<and> staffAuthed st \<and>
        x \<in> set (filtered flt (orders st)) \<longrightarrow>
      (\<exists>st' ls'. click_status clk flt x t st ls = Some (st', ls') \<and>
         orders st' =
           map (\<lambda>y. if o_id y = o_id x then y\<lparr>status := t\<rparr> else y) (getAllOrders clk ls) \<and>
         getAllOrders clk ls' = orders st'))"
proof (intro conjI allI impI)
  show "click_status clk flt x New st ls = None"
    using assms by (auto simp: click_status_def status_buttons_def)
  show "click_status clk flt x Paid st ls = None"
    using assms by (auto simp: click_status_def status_buttons_def)
  show "click_status clk flt x (status x) st ls = None"
    using assms by (auto simp: click_status_def status_buttons_def)
  fix t
  assume h: "t \<in> {Preparing, Ready, Done, Cancelled} - {status x} \<and> staffAuthed st \<and>
      x \<in> set (filtered flt (orders st))"
  then have "t \<in> set (status_buttons (status x))"
    using assms by (auto simp: status_buttons_def)
  with h have c: "click_status clk flt x t st ls =
      Some (updateOrder clk (o_id x) (no_patch\<lparr>p_status := Some t\<rparr>) st ls)"
    by (simp add: click_status_def)
  let ?r = "updateOrder clk (o_id x) (no_patch\<lparr>p_status := Some t\<rparr>) st ls"
  have o: "orders (fst ?r) =
      map (\<lambda>y. if o_id y = o_id x then y\<lparr>status := t\<rparr> else y) (getAllOrders clk ls)"
    by (simp add: updateOrder_status)
  have g: "getAllOrders clk (snd ?r) = orders (fst ?r)"
    unfolding o by (rule updateOrder_status_read)
  show "\<exists>st' ls'. click_status clk flt x t st ls = Some (st', ls') \<and>
         orders st' =
           map (\<lambda>y. if o_id y = o_id x then y\<lparr>status := t\<rparr> else y) (getAllOrders clk ls) \<and>
         getAllOrders clk ls' = orders st'"
    using c o g by (intro exI [of _ "fst ?r"] exI [of _ "snd ?r"]) simp
qed

theorem done_cancelled_still_offer_transitions_witness:
  "click_status (\<lambda>i. 0) (FStatus Done) ex_done New ex_board ex_board_storage = None \<and>
   click_status (\<lambda>i. 0) (FStatus Done) ex_done Paid ex_board ex_board_storage = None \<and>
   click_status (\<lambda>i. 0) (FStatus Done) ex_done Done ex_board ex_board_storage = None \<and>
   map_option (\<lambda>r. map status (orders (fst r)))
     (click_status (\<lambda>i. 0) (FStatus Done) ex_done Cancelled ex_board ex_board_storage) =
     Some [Cancelled]"
proof -
  have s: "status ex_done = Done \<or> status ex_done = Cancelled" "status ex_done = Done"
    by (simp_all add: ex_done_def)
  have h: "Cancelled \<in> {Preparing, Ready, Done, Cancelled} - {status ex_done} \<and>
      staffAuthed ex_board \<and> ex_done \<in> set (filtered (FStatus Done) (orders ex_board))"
    by (simp add: ex_board_def ex_done_def filtered_def)
  have b: "getAllOrders (\<lambda>i. 0) ex_board_storage = [ex_done]"
    unfolding ex_board_storage_def
    by (rule getAllOrders_saveAllOrders) (simp add: ex_done_def)
  show ?thesis
    using done_cancelled_still_offer_transitions
      [OF s(1), of "\<lambda>i. 0" "FStatus Done" ex_board ex_board_storage] h s(2) b
    by (auto simp: ex_done_def)
qed

end
